theory Spec2Isabelle
  imports Complex_Main "HOL-Library.Log_Nat"
begin

section \<open>JavaScript values used by the presentation runner\<close>

text \<open>
  The runner \<^verbatim>\<open>app.js\<close> exists in two versions in the source file: the first
  (``naive'') and the second (``hardened''). Definitions without suffix embed the hardened
  version; the suffix \<open>_naive\<close> marks the embedding of the first version.

  Strings are byte strings (UTF-8). The only non-ASCII characters of the source are the
  bullet U+2022 and the ellipsis U+2026, written here as their three bytes.
\<close>

subsection \<open>Numbers\<close>

text \<open>
  A JavaScript Number is an IEEE-754 binary64 value. The finite ones are rationals, and the
  arithmetic operators return the exact result rounded to the nearest representable value,
  ties to the even significand. \<open>toDouble\<close> is that rounding for the normal range
  (53 significant bits; exponent limits are not modelled: all magnitudes that occur in the
  runner lie between \<open>2 powi (-1022)\<close> and \<open>2 powi 1024\<close>).
\<close>

definition binExponent :: "rat \<Rightarrow> int" where
  "binExponent x =
     (if 1 \<le> x then bitlen \<lfloor>x\<rfloor> - 1
      else (let b = bitlen \<lfloor>1 / x\<rfloor> in if x = 2 powi (1 - b) then 1 - b else - b))"

definition roundTiesToEven :: "rat \<Rightarrow> int" where
  "roundTiesToEven m =
     (let f = \<lfloor>m\<rfloor>; r = m - of_int f
      in if r < 1 / 2 then f else if 1 / 2 < r then f + 1 else if even f then f else f + 1)"

definition toDouble :: "rat \<Rightarrow> rat" where
  "toDouble x =
     (if x = 0 then 0
      else (let a = \<bar>x\<bar>; u = 2 powi (binExponent a - 52)
            in sgn x * of_int (roundTiesToEven (a / u)) * u))"

definition num_add :: "rat \<Rightarrow> rat \<Rightarrow> rat" where
  "num_add x y = toDouble (x + y)"

definition num_mul :: "rat \<Rightarrow> rat \<Rightarrow> rat" where
  "num_mul x y = toDouble (x * y)"

text \<open>Division by a non-zero divisor; the callers treat the divisor zero themselves.\<close>

definition num_div :: "rat \<Rightarrow> rat \<Rightarrow> rat" where
  "num_div x y = toDouble (x / y)"

text \<open>\<^verbatim>\<open>Math.round\<close>: the nearest integer, a tie going towards plus infinity.\<close>

definition Math_round :: "rat \<Rightarrow> int" where
  "Math_round x = \<lfloor>x + 1 / 2\<rfloor>"

subsection \<open>Strings\<close>

fun showNat :: "nat \<Rightarrow> string" where
  "showNat n =
     (if n < 10 then [''0123456789'' ! n]
      else showNat (n div 10) @ [''0123456789'' ! (n mod 10)])"

declare showNat.simps [simp del]

definition showInt :: "int \<Rightarrow> string" where
  "showInt i = (if i < 0 then ''-'' @ showNat (nat (- i)) else showNat (nat i))"

definition startsWith :: "string \<Rightarrow> string \<Rightarrow> bool" where
  "startsWith s p \<longleftrightarrow> take (length p) s = p"

text \<open>
  \<^verbatim>\<open>toLowerCase\<close>. The characters whose lower-case form contains an ASCII letter are the
  ASCII capitals, the Kelvin sign U+212A (bytes E2 84 AA, lower case \<^verbatim>\<open>k\<close>) and the capital
  I with dot above U+0130 (bytes C4 B0, lower case \<^verbatim>\<open>i\<close> followed by the combining dot
  U+0307, bytes CC 87). Every other character beyond ASCII has a lower-case form without
  any ASCII character; it is left as it is, which changes no comparison with an ASCII key.
\<close>

definition lowerChar :: "char \<Rightarrow> char" where
  "lowerChar c =
     (let n = (of_char c :: nat) in if 65 \<le> n \<and> n \<le> 90 then char_of (n + 32) else c)"

fun toLowerCase :: "string \<Rightarrow> string" where
  "toLowerCase [] = []"
| "toLowerCase [a] = [lowerChar a]"
| "toLowerCase [a, b] =
     (if a = CHR 0xC4 \<and> b = CHR 0xB0 then [CHR 0x69, CHR 0xCC, CHR 0x87]
      else lowerChar a # toLowerCase [b])"
| "toLowerCase (a # b # c # cs) =
     (if a = CHR 0xE2 \<and> b = CHR 0x84 \<and> c = CHR 0xAA then CHR 0x6B # toLowerCase cs
      else if a = CHR 0xC4 \<and> b = CHR 0xB0 then [CHR 0x69, CHR 0xCC, CHR 0x87] @ toLowerCase (c # cs)
      else lowerChar a # toLowerCase (b # c # cs))"

section \<open>Data model\<close>

text \<open>A body item of a slide is a JSON value; only strings are rendered.\<close>

datatype body_item = Str string | NonStr

record slide =
  title :: "string option"
  subtitle :: "string option"
  noteText :: "string option"
  body :: "body_item list option"

text \<open>
  \<open>slides = None\<close> stands for a \<^verbatim>\<open>slides\<close> property that is absent or not an array
  (\<^verbatim>\<open>Array.isArray\<close> is false for both).
\<close>

record deck =
  deckTitle :: "string option"
  theme :: "string option"
  slides :: "slide list option"

text \<open>
  The parsed payload: \<^verbatim>\<open>null\<close>, on which every property read throws, or any other JSON
  value. A number, string, boolean or array has none of the three properties and behaves
  as the deck whose fields are all absent.
\<close>

datatype content = JsonNull | JsonValue deck

text \<open>Children of a slide's content wrapper: a paragraph or a list with its items.\<close>

datatype node = P string | UL "string list"

record slide_el =
  dataIndex :: string
  visible :: bool
  heading :: string
  subheading :: "string option"
  noteEl :: "string option"
  contentWrap :: "node list"

section \<open>Slide renderer\<close>

definition bulletDot :: string where
  "bulletDot = [CHR 0xE2, CHR 0x80, CHR 0xA2, CHR 0x20]"

definition bulletDash :: string where
  "bulletDash = ''- ''"

definition isBullet :: "string \<Rightarrow> bool" where
  "isBullet par \<longleftrightarrow> startsWith par bulletDot \<or> startsWith par bulletDash"

text \<open>
  \<^verbatim>\<open>par.replace(/^\<bullet>\s|-\s/, "")\<close> removes the leftmost match of the regular expression:
  the bullet and a white-space character at the start of the string, or else the first
  dash followed by a white-space character anywhere. White space is the ASCII set here.
\<close>

definition isSpace :: "char \<Rightarrow> bool" where
  "isSpace c \<longleftrightarrow> c \<in> set [CHR 0x20, CHR 0x09, CHR 0x0A, CHR 0x0B, CHR 0x0C, CHR 0x0D]"

fun removeDashSpace :: "string \<Rightarrow> string" where
  "removeDashSpace (c # d # cs) =
     (if c = CHR ''-'' \<and> isSpace d then cs else c # removeDashSpace (d # cs))"
| "removeDashSpace cs = cs"

definition replaceMarker :: "string \<Rightarrow> string" where
  "replaceMarker par =
     (if take 3 par = take 3 bulletDot \<and> 3 < length par \<and> isSpace (par ! 3) then drop 4 par
      else removeDashSpace par)"

fun appendLi :: "node \<Rightarrow> string \<Rightarrow> node" where
  "appendLi (UL items) t = UL (items @ [t])"
| "appendLi (P s) t = P s"

text \<open>
  The hardened loop body. The state is the children of the content wrapper and the
  variable \<^verbatim>\<open>ul\<close>: \<open>None\<close> for \<^verbatim>\<open>null\<close>, otherwise the position of the list element
  among the children (the variable aliases that child).
\<close>

fun renderItem :: "node list \<times> nat option \<Rightarrow> body_item \<Rightarrow> node list \<times> nat option" where
  "renderItem (wrap, ul) NonStr = (wrap, ul)"
| "renderItem (wrap, ul) (Str par) =
     (if isBullet par then
        (let (wrap1, i) = (case ul of None \<Rightarrow> (wrap @ [UL []], length wrap)
                                    | Some i \<Rightarrow> (wrap, i))
         in (wrap1[i := appendLi (wrap1 ! i) (replaceMarker par)], Some i))
      else (wrap @ [P par], ul))"

definition renderBody :: "body_item list option \<Rightarrow> node list" where
  "renderBody b = (case b of None \<Rightarrow> [] | Some items \<Rightarrow> fst (foldl renderItem ([], None) items))"

text \<open>
  The first version: \<^verbatim>\<open>contentWrap.querySelector('ul')\<close> is the first list among the
  children, and a new list is appended only when there is none.
\<close>

fun findUl :: "node list \<Rightarrow> nat option" where
  "findUl [] = None"
| "findUl (UL items # ns) = Some 0"
| "findUl (P s # ns) = map_option Suc (findUl ns)"

fun renderItem_naive :: "node list \<Rightarrow> body_item \<Rightarrow> node list" where
  "renderItem_naive wrap NonStr = wrap"
| "renderItem_naive wrap (Str par) =
     (if isBullet par then
        (let (wrap1, i) = (case findUl wrap of None \<Rightarrow> (wrap @ [UL []], length wrap)
                                             | Some i \<Rightarrow> (wrap, i))
         in wrap1[i := appendLi (wrap1 ! i) (replaceMarker par)])
      else wrap @ [P par])"

definition renderBody_naive :: "body_item list option \<Rightarrow> node list" where
  "renderBody_naive b = (case b of None \<Rightarrow> [] | Some items \<Rightarrow> foldl renderItem_naive [] items)"

text \<open>
  The reading of the specification, for comparison: the strings of the body in order, every
  maximal run of consecutive bullet lines as one list of its own.
\<close>

function groupRuns :: "string list \<Rightarrow> node list" where
  "groupRuns [] = []"
| "groupRuns (s # ss) =
     (if isBullet s then
        UL (map replaceMarker (s # takeWhile isBullet ss)) # groupRuns (dropWhile isBullet ss)
      else P s # groupRuns ss)"
  by pat_completeness auto
termination
  by (relation "measure length") (auto simp: length_dropWhile_le less_Suc_eq_le)

fun strings :: "body_item list \<Rightarrow> string list" where
  "strings [] = []"
| "strings (Str s # xs) = s # strings xs"
| "strings (NonStr # xs) = strings xs"

definition renderBody_spec :: "body_item list option \<Rightarrow> node list" where
  "renderBody_spec b = (case b of None \<Rightarrow> [] | Some items \<Rightarrow> groupRuns (strings items))"

text \<open>
  What the loops compute, as one expression: the paragraphs before the first bullet line,
  then one list with every bullet line of the body, then the paragraphs after the first
  bullet line. \<open>listPos\<close> is the position of that list and \<open>oneRun\<close> says that the
  bullet lines of the body are consecutive.
\<close>

definition singleList :: "string list \<Rightarrow> node list" where
  "singleList ss =
     (let pre = takeWhile (\<lambda>s. \<not> isBullet s) ss;
          rest = dropWhile (\<lambda>s. \<not> isBullet s) ss
      in if rest = [] then map P pre
         else map P pre @ UL (map replaceMarker (filter isBullet rest))
                # map P (filter (\<lambda>s. \<not> isBullet s) rest))"

definition listPos :: "string list \<Rightarrow> nat option" where
  "listPos ss =
     (if dropWhile (\<lambda>s. \<not> isBullet s) ss = [] then None
      else Some (length (takeWhile (\<lambda>s. \<not> isBullet s) ss)))"

definition oneRun :: "string list \<Rightarrow> bool" where
  "oneRun ss \<longleftrightarrow>
     list_all (\<lambda>s. \<not> isBullet s) (dropWhile isBullet (dropWhile (\<lambda>s. \<not> isBullet s) ss))"

text \<open>\<^verbatim>\<open>s.title || ""\<close> and \<^verbatim>\<open>if (s.subtitle)\<close>: the empty string is falsy.\<close>

definition truthy :: "string option \<Rightarrow> string option" where
  "truthy v = (case v of None \<Rightarrow> None | Some s \<Rightarrow> if s = [] then None else Some s)"

definition renderSlide :: "nat \<Rightarrow> slide \<Rightarrow> slide_el" where
  "renderSlide idx s =
     \<lparr> dataIndex = showNat idx,
       visible = False,
       heading = (case truthy (title s) of None \<Rightarrow> [] | Some t \<Rightarrow> t),
       subheading = truthy (subtitle s),
       noteEl = truthy (noteText s),
       contentWrap = renderBody (body s) \<rparr>"

definition renderSlides :: "slide list \<Rightarrow> slide_el list" where
  "renderSlides ss = map (\<lambda>(idx, s). renderSlide idx s) (enumerate 0 ss)"

section \<open>Navigation controller\<close>

text \<open>
  The state that navigation reads and writes: the slide elements found by
  \<^verbatim>\<open>qsa(".slide")\<close>, the variable \<^verbatim>\<open>current\<close>, the text of the counter element and the
  width of the progress element (\<open>None\<close> when the element is missing from the page).
  Scrolling the current slide into view moves the viewport only and is not part of the
  state.
\<close>

record nav =
  slideEls :: "slide_el list"
  current :: int
  counter :: "string option"
  progressFill :: "string option"

datatype js_error = TypeError

text \<open>
  \<^verbatim>\<open>Math.round(((current + 1) / slideEls.length) * 100)\<close> for a non-empty deck. The index
  and the length are integers below \<open>2 ^ 53\<close>, which are doubles as they are; the quotient
  and the product are rounded.
\<close>

definition pct :: "int \<Rightarrow> nat \<Rightarrow> int" where
  "pct c n = Math_round (num_mul (num_div (of_int (c + 1)) (of_nat n)) 100)"

text \<open>The same expression as text; with no slides the quotient is not finite.\<close>

definition pctText :: "int \<Rightarrow> nat \<Rightarrow> string" where
  "pctText c n =
     (if n = 0 then (if c + 1 = 0 then ''NaN'' else if 0 < c + 1 then ''Infinity'' else ''-Infinity'')
      else showInt (pct c n))"

definition setVisible :: "int \<Rightarrow> slide_el list \<Rightarrow> slide_el list" where
  "setVisible c els = map (\<lambda>(i, el). el\<lparr>visible := (int i = c)\<rparr>) (enumerate 0 els)"

definition counterText :: "int \<Rightarrow> nat \<Rightarrow> string" where
  "counterText c n = showInt (c + 1) @ '' / '' @ showNat n"

definition updateUI :: "nav \<Rightarrow> nav" where
  "updateUI s =
     (let n = length (slideEls s)
      in s\<lparr> slideEls := setVisible (current s) (slideEls s),
            counter := map_option (\<lambda>_. counterText (current s) n) (counter s),
            progressFill := map_option (\<lambda>_. pctText (current s) n @ ''%'') (progressFill s) \<rparr>)"

definition goto :: "int \<Rightarrow> nav \<Rightarrow> nav" where
  "goto n s =
     (let len = int (length (slideEls s))
      in if len = 0 then s
         else (let n1 = (if n < 0 then 0 else n);
                   n2 = (if len \<le> n1 then len - 1 else n1)
               in updateUI (s\<lparr>current := n2\<rparr>)))"

text \<open>
  The first version writes to the counter and the progress element without testing them:
  a missing element makes the write throw (the state at the throw is not followed).
\<close>

definition updateUI_naive :: "nav \<Rightarrow> js_error + nav" where
  "updateUI_naive s =
     (let n = length (slideEls s)
      in case counter s of
           None \<Rightarrow> Inl TypeError
         | Some _ \<Rightarrow>
             (case progressFill s of
                None \<Rightarrow> Inl TypeError
              | Some _ \<Rightarrow>
                  Inr (s\<lparr> slideEls := setVisible (current s) (slideEls s),
                          counter := Some (counterText (current s) n),
                          progressFill := Some (pctText (current s) n @ ''%'') \<rparr>)))"

definition goto_naive :: "int \<Rightarrow> nav \<Rightarrow> js_error + nav" where
  "goto_naive n s =
     (let len = int (length (slideEls s));
          n1 = (if n < 0 then 0 else n);
          n2 = (if len \<le> n1 then len - 1 else n1)
      in updateUI_naive (s\<lparr>current := n2\<rparr>))"

text \<open>The triggers: the two buttons, the keys, and \<^verbatim>\<open>window.gotoSlide\<close>.\<close>

datatype nav_event =
  PrevClick | NextClick | KeySpace | KeyArrowRight | KeyArrowLeft | KeyOther | GotoSlide int

fun handleEvent :: "nav \<Rightarrow> nav_event \<Rightarrow> nav" where
  "handleEvent s PrevClick = goto (current s - 1) s"
| "handleEvent s NextClick = goto (current s + 1) s"
| "handleEvent s KeySpace = goto (current s + 1) s"
| "handleEvent s KeyArrowRight = goto (current s + 1) s"
| "handleEvent s KeyArrowLeft = goto (current s - 1) s"
| "handleEvent s KeyOther = s"
| "handleEvent s (GotoSlide n) = goto n s"

definition visibleIndices :: "nav \<Rightarrow> nat list" where
  "visibleIndices s = filter (\<lambda>i. visible (slideEls s ! i)) [0..<length (slideEls s)]"

text \<open>
  The state after rendering and the initial \<^verbatim>\<open>goto(0)\<close>, and the state after a sequence of
  triggers.
\<close>

definition startNav :: "slide list \<Rightarrow> string option \<Rightarrow> string option \<Rightarrow> nav" where
  "startNav ss c p =
     goto 0 \<lparr> slideEls = renderSlides ss, current = 0, counter = c, progressFill = p \<rparr>"

definition runEvents :: "nav \<Rightarrow> nav_event list \<Rightarrow> nav" where
  "runEvents s evs = foldl handleEvent s evs"

text \<open>The invariant of navigation over a deck of \<open>n\<close> slides.\<close>

definition navOk :: "nat \<Rightarrow> nav \<Rightarrow> bool" where
  "navOk n s \<longleftrightarrow> length (slideEls s) = n \<and> 0 \<le> current s \<and> current s < int n
                 \<and> visibleIndices s = [nat (current s)]"

section \<open>Theme resolver\<close>

record theme_entry =
  accent :: string
  accent2 :: string
  textOnAccent :: string

text \<open>
  \<^verbatim>\<open>themeMap\<close> is an object literal, so \<^verbatim>\<open>themeMap[tKey]\<close> finds its four own properties
  and also the members it inherits from \<^verbatim>\<open>Object.prototype\<close>; those are functions or
  objects (truthy) without an \<^verbatim>\<open>accent\<close> property.
\<close>

datatype theme_value = ThemeObj theme_entry | ProtoMember

definition pinkTheme :: theme_entry where
  "pinkTheme = \<lparr> accent = ''#ff6ba6'', accent2 = ''#ff9ccf'', textOnAccent = ''#ffffff'' \<rparr>"

definition purpleTheme :: theme_entry where
  "purpleTheme = \<lparr> accent = ''#7c5cff'', accent2 = ''#b39bff'', textOnAccent = ''#ffffff'' \<rparr>"

definition blueTheme :: theme_entry where
  "blueTheme = \<lparr> accent = ''#2f7bff'', accent2 = ''#79b2ff'', textOnAccent = ''#ffffff'' \<rparr>"

definition blackTheme :: theme_entry where
  "blackTheme = \<lparr> accent = ''#1f1f23'', accent2 = ''#3a3a44'', textOnAccent = ''#ffffff'' \<rparr>"

definition objectPrototypeKeys :: "string list" where
  "objectPrototypeKeys =
     [''constructor'', ''__proto__'', ''hasOwnProperty'', ''isPrototypeOf'',
      ''propertyIsEnumerable'', ''toLocaleString'', ''toString'', ''valueOf'',
      ''__defineGetter__'', ''__defineSetter__'', ''__lookupGetter__'', ''__lookupSetter__'']"

definition themeMap :: "string \<Rightarrow> theme_value option" where
  "themeMap k =
     (if k = ''pink'' then Some (ThemeObj pinkTheme)
      else if k = ''purple'' then Some (ThemeObj purpleTheme)
      else if k = ''blue'' then Some (ThemeObj blueTheme)
      else if k = ''black'' then Some (ThemeObj blackTheme)
      else if k \<in> set objectPrototypeKeys then Some ProtoMember
      else None)"

text \<open>
  \<^verbatim>\<open>themeMap[String(content.theme || "pink").toLowerCase()] || themeMap.pink\<close>, for a theme
  field that is absent or a string.
\<close>

definition resolveTheme :: "string option \<Rightarrow> theme_value" where
  "resolveTheme t =
     (let tKey = toLowerCase (case truthy t of None \<Rightarrow> ''pink'' | Some s \<Rightarrow> s)
      in case themeMap tKey of None \<Rightarrow> ThemeObj pinkTheme | Some v \<Rightarrow> v)"

text \<open>The first version has the one theme.\<close>

definition themeMap_naive :: "string \<Rightarrow> theme_value option" where
  "themeMap_naive k =
     (if k = ''pink'' then Some (ThemeObj pinkTheme)
      else if k \<in> set objectPrototypeKeys then Some ProtoMember
      else None)"

definition resolveTheme_naive :: "string option \<Rightarrow> theme_value" where
  "resolveTheme_naive t =
     (let tKey = toLowerCase (case truthy t of None \<Rightarrow> ''pink'' | Some s \<Rightarrow> s)
      in case themeMap_naive tKey of None \<Rightarrow> ThemeObj pinkTheme | Some v \<Rightarrow> v)"

definition accentOf :: "theme_value \<Rightarrow> string option" where
  "accentOf v = (case v of ThemeObj t \<Rightarrow> Some (accent t) | ProtoMember \<Rightarrow> None)"

definition accent2Of :: "theme_value \<Rightarrow> string option" where
  "accent2Of v = (case v of ThemeObj t \<Rightarrow> Some (accent2 t) | ProtoMember \<Rightarrow> None)"

subsection \<open>Luminance\<close>

definition hexDigit :: "char \<Rightarrow> nat option" where
  "hexDigit c =
     (let n = (of_char c :: nat)
      in if 48 \<le> n \<and> n \<le> 57 then Some (n - 48)
         else if 97 \<le> n \<and> n \<le> 102 then Some (n - 87)
         else if 65 \<le> n \<and> n \<le> 70 then Some (n - 55)
         else None)"

text \<open>
  \<^verbatim>\<open>parseInt(s, 16)\<close> on a two-character substring. \<open>None\<close> stands for every substring
  that is not two hexadecimal digits; the theme table has no such colour.
\<close>

definition parseInt16 :: "string \<Rightarrow> nat option" where
  "parseInt16 s =
     (case s of
        [a, b] \<Rightarrow> (case (hexDigit a, hexDigit b) of
                     (Some x, Some y) \<Rightarrow> Some (16 * x + y)
                   | _ \<Rightarrow> None)
      | _ \<Rightarrow> None)"

definition removeHash :: "string \<Rightarrow> string" where
  "removeHash hex = takeWhile (\<lambda>c. c \<noteq> CHR ''#'') hex @ drop 1 (dropWhile (\<lambda>c. c \<noteq> CHR ''#'') hex)"

definition hexToRgb :: "string \<Rightarrow> (nat \<times> nat \<times> nat) option" where
  "hexToRgb hex =
     (let h = removeHash hex
      in case (parseInt16 (take 2 h), parseInt16 (take 2 (drop 2 h)), parseInt16 (take 2 (drop 4 h))) of
           (Some r, Some g, Some b) \<Rightarrow> Some (r, g, b)
         | _ \<Rightarrow> None)"

text \<open>
  \<^verbatim>\<open>Math.pow\<close> is implementation-approximated in ECMAScript, so it is a parameter \<open>pow\<close>
  of the luminance function. The decimal literals of the source (0.03928, 12.92, 0.055,
  1.055, 2.4 and the three weights) denote the nearest doubles.
\<close>

definition threshold :: rat where
  "threshold = toDouble (3928 / 100000)"

definition linearDivisor :: rat where
  "linearDivisor = toDouble (1292 / 100)"

definition gammaOffset :: rat where
  "gammaOffset = toDouble (55 / 1000)"

definition gammaScale :: rat where
  "gammaScale = toDouble (1055 / 1000)"

definition gammaExponent :: rat where
  "gammaExponent = toDouble (24 / 10)"

definition weightR :: rat where
  "weightR = toDouble (2126 / 10000)"

definition weightG :: rat where
  "weightG = toDouble (7152 / 10000)"

definition weightB :: rat where
  "weightB = toDouble (722 / 10000)"

definition linearize :: "(rat \<Rightarrow> rat \<Rightarrow> rat) \<Rightarrow> rat \<Rightarrow> rat" where
  "linearize pow v =
     (if v \<le> threshold then num_div v linearDivisor
      else pow (num_div (num_add v gammaOffset) gammaScale) gammaExponent)"

definition channel :: "(rat \<Rightarrow> rat \<Rightarrow> rat) \<Rightarrow> nat \<Rightarrow> rat" where
  "channel pow k = linearize pow (num_div (of_nat k) 255)"

definition weighted :: "rat \<Rightarrow> rat \<Rightarrow> rat \<Rightarrow> rat" where
  "weighted r g b =
     num_add (num_add (num_mul weightR r) (num_mul weightG g)) (num_mul weightB b)"

text \<open>
  The argument is the accent of the resolved theme, \<open>None\<close> when it is \<^verbatim>\<open>undefined\<close>
  (then \<^verbatim>\<open>hex.replace\<close> throws). The result \<open>Inr None\<close> stands for a colour outside the
  model of \<open>parseInt16\<close>.
\<close>

definition lum :: "(rat \<Rightarrow> rat \<Rightarrow> rat) \<Rightarrow> string option \<Rightarrow> js_error + rat option" where
  "lum pow hex =
     (case hex of
        None \<Rightarrow> Inl TypeError
      | Some h \<Rightarrow>
          Inr (case hexToRgb h of
                 None \<Rightarrow> None
               | Some (r, g, b) \<Rightarrow> Some (weighted (channel pow r) (channel pow g) (channel pow b))))"

text \<open>The two \<^verbatim>\<open>classList.toggle\<close> calls with their force arguments.\<close>

definition lightTextClass :: "rat \<Rightarrow> bool" where
  "lightTextClass aLum \<longleftrightarrow> 1 / 2 < aLum"

definition darkTextClass :: "rat \<Rightarrow> bool" where
  "darkTextClass aLum \<longleftrightarrow> aLum \<le> 1 / 2"

section \<open>Content loader and initialisation\<close>

datatype load_result =
  FetchRejected string | HttpStatus nat | InvalidJson string | Parsed content

datatype detail = NoDetail | ErrorMessage string | PayloadSnippet content | ErrorStack js_error

record fatal =
  message :: string
  detail :: detail

text \<open>
  The parts of the page that initialisation touches: the children of \<^verbatim>\<open>#stage\<close> (\<open>None\<close>
  when the page has no such container), the optional counter and progress elements, the
  two contrast classes of the body, the two CSS custom properties, and the fatal-error
  panel. Slides are the only elements of class \<^verbatim>\<open>slide\<close> on the page.
\<close>

record page =
  stage :: "slide_el list option"
  counterEl :: "string option"
  progressEl :: "string option"
  lightText :: bool
  darkText :: bool
  cssAccent :: "string option"
  cssAccent2 :: "string option"
  fatalError :: "fatal option"

definition showFatal :: "string \<Rightarrow> detail \<Rightarrow> page \<Rightarrow> page" where
  "showFatal m d pg = pg\<lparr>fatalError := Some \<lparr>message = m, detail = d\<rparr>\<rparr>"

text \<open>
  Setting the custom properties, then the contrast classes. An \<^verbatim>\<open>undefined\<close> accent is
  written as the text \<^verbatim>\<open>undefined\<close> before \<open>lum\<close> throws.
\<close>

definition cssText :: "string option \<Rightarrow> string" where
  "cssText v = (case v of None \<Rightarrow> ''undefined'' | Some s \<Rightarrow> s)"

definition applyTheme :: "(rat \<Rightarrow> rat \<Rightarrow> rat) \<Rightarrow> theme_value \<Rightarrow> page \<Rightarrow> page \<times> js_error option" where
  "applyTheme pow th pg =
     (let pg1 = pg\<lparr> cssAccent := Some (cssText (accentOf th)),
                     cssAccent2 := Some (cssText (accent2Of th)) \<rparr>
      in case lum pow (accentOf th) of
           Inl e \<Rightarrow> (pg1, Some e)
         | Inr None \<Rightarrow> (pg1\<lparr>lightText := False, darkText := False\<rparr>, None)
         | Inr (Some aLum) \<Rightarrow>
             (pg1\<lparr>lightText := lightTextClass aLum, darkText := darkTextClass aLum\<rparr>, None))"

definition zeroSlides :: string where
  "zeroSlides = ''content.json loaded, but contains 0 slides. Expected: { slides: [ ... ] }''"

definition loadErrorText :: "load_result \<Rightarrow> string" where
  "loadErrorText r =
     (case r of
        FetchRejected m \<Rightarrow> m
      | HttpStatus st \<Rightarrow> ''HTTP '' @ showNat st @ '' while fetching content.json''
      | InvalidJson m \<Rightarrow>
          ''content.json is not valid JSON. Common cause: unescaped quotes inside strings.''
            @ [CHR 0x0A, CHR 0x0A] @ m
      | Parsed c \<Rightarrow> [])"

text \<open>
  The whole asynchronous function of the hardened version up to \<^verbatim>\<open>goto(0)\<close>, with its
  early returns and its outer \<^verbatim>\<open>catch\<close>. The result is the page and, when initialisation
  got through, the navigation state (whose slide elements are the children of the stage).
  \<open>HttpStatus\<close> is a response that is not ok. Attaching the listeners and the
  compact-mode layout do not touch this state and are left out.
\<close>

definition init :: "(rat \<Rightarrow> rat \<Rightarrow> rat) \<Rightarrow> load_result \<Rightarrow> page \<Rightarrow> page \<times> nav option" where
  "init pow res pg =
     (case stage pg of
        None \<Rightarrow>
          (showFatal (''index.html is missing #stage. The deck renderer needs a container ''
                        @ ''with id='' @ [CHR 0x27] @ ''stage'' @ [CHR 0x27] @ ''.'') NoDetail pg, None)
      | Some old \<Rightarrow>
          (case res of
             Parsed JsonNull \<Rightarrow>
               (showFatal ''Unexpected error in app.js.'' (ErrorStack TypeError) pg, None)
           | Parsed (JsonValue d) \<Rightarrow>
               (let ss = (case slides d of None \<Rightarrow> [] | Some xs \<Rightarrow> xs)
                in if length ss = 0 then
                     (showFatal zeroSlides
                        (PayloadSnippet (JsonValue d)) pg, None)
                   else
                     (case applyTheme pow (resolveTheme (theme d)) pg of
                        (pg1, Some e) \<Rightarrow>
                          (showFatal ''Unexpected error in app.js.'' (ErrorStack e) pg1, None)
                      | (pg1, None) \<Rightarrow>
                          (let s = startNav ss (counterEl pg1) (progressEl pg1)
                           in (pg1\<lparr> stage := Some (slideEls s), counterEl := counter s,
                                     progressEl := progressFill s \<rparr>, Some s))))
           | _ \<Rightarrow> (showFatal ''Could not load content.json.'' (ErrorMessage (loadErrorText res)) pg, None)))"

text \<open>The slide elements of the stage that carry the class \<^verbatim>\<open>visible\<close>.\<close>

definition visibleSlides :: "page \<Rightarrow> slide_el list" where
  "visibleSlides pg = (case stage pg of None \<Rightarrow> [] | Some els \<Rightarrow> filter visible els)"

section \<open>Export pipeline\<close>

text \<open>The image that rasterising the clone of a slide element gives.\<close>

datatype image = Png slide_el

text \<open>
  The state of an export: the navigation state, the cancellation flag, the
  \<^verbatim>\<open>exporting\<close> class of the body, the overlay (hidden or not) and the status text when
  these elements exist, the pages of the document under construction with the images
  placed on each, and the saved file (name and pages) once \<^verbatim>\<open>pdf.save\<close> has run.
\<close>

record exporter =
  navigation :: nav
  cancelRequested :: bool
  exporting :: bool
  overlayHidden :: "bool option"
  exportStatus :: "string option"
  pdfPages :: "image list list"
  saved :: "(string \<times> image list list) option"
  exportFatal :: "fatal option"

text \<open>The click handler of the cancel button.\<close>

definition cancelClick :: "exporter \<Rightarrow> exporter" where
  "cancelClick st =
     st\<lparr> cancelRequested := True,
         overlayHidden := map_option (\<lambda>_. True) (overlayHidden st),
         exporting := False \<rparr>"

text \<open>
  Other handlers run only while the export awaits. The schedule says whether a cancel click
  arrives during the first settle delay, during the two awaits of iteration \<open>i\<close> (the
  settle delay and the rasterisation), and during the delay before saving.
\<close>

record schedule =
  cancelEarly :: bool
  cancelDuring :: "nat \<Rightarrow> bool"
  cancelLate :: bool

definition awaiting :: "bool \<Rightarrow> exporter \<Rightarrow> exporter" where
  "awaiting click st = (if click then cancelClick st else st)"

text \<open>
  \<^verbatim>\<open>addImage\<close> places the image on the current page, the last one; a document has at
  least one page from its creation on.
\<close>

definition addImage :: "image \<Rightarrow> image list list \<Rightarrow> image list list" where
  "addImage img pgs = butlast pgs @ [last pgs @ [img]]"

definition addPage :: "image list list \<Rightarrow> image list list" where
  "addPage pgs = pgs @ [[]]"

definition setStatus :: "string \<Rightarrow> exporter \<Rightarrow> exporter" where
  "setStatus t st = st\<lparr>exportStatus := map_option (\<lambda>_. t) (exportStatus st)\<rparr>"

text \<open>One iteration of the loop after the cancellation test. The rasteriser resolves.\<close>

definition exportSlide :: "schedule \<Rightarrow> nat \<Rightarrow> exporter \<Rightarrow> exporter" where
  "exportSlide sch i st =
     (let st1 = st\<lparr>navigation := goto (int i) (navigation st)\<rparr>;
          n = length (slideEls (navigation st1));
          st2 = setStatus (''Rendering slide '' @ showNat (i + 1) @ '' / '' @ showNat n @ '' ...'') st1;
          st3 = awaiting (cancelDuring sch i) st2;
          img = Png (slideEls (navigation st3) ! i);
          st4 = st3\<lparr>pdfPages := addImage img (pdfPages st3)\<rparr>
      in if i + 1 < n then st4\<lparr>pdfPages := addPage (pdfPages st4)\<rparr> else st4)"

text \<open>Navigation never changes the number of slide elements, so the loop ends.\<close>

lemma length_setVisible [simp]: "length (setVisible c els) = length els"
  by (simp add: setVisible_def)

lemma length_updateUI [simp]: "length (slideEls (updateUI s)) = length (slideEls s)"
  by (simp add: updateUI_def Let_def)

lemma length_goto [simp]: "length (slideEls (goto n s)) = length (slideEls s)"
  by (simp add: goto_def Let_def)

lemma navigation_awaiting [simp]: "navigation (awaiting c st) = navigation st"
  by (simp add: awaiting_def cancelClick_def)

lemma length_exportSlide [simp]:
  "length (slideEls (navigation (exportSlide sch i st))) = length (slideEls (navigation st))"
  by (simp add: exportSlide_def Let_def setStatus_def)

text \<open>The \<^verbatim>\<open>for\<close> loop from index \<open>i\<close> on, with its \<^verbatim>\<open>break\<close>.\<close>

function exportLoop :: "schedule \<Rightarrow> nat \<Rightarrow> exporter \<Rightarrow> exporter" where
  "exportLoop sch i st =
     (if i < length (slideEls (navigation st)) then
        (if cancelRequested st then st else exportLoop sch (i + 1) (exportSlide sch i st))
      else st)"
  by pat_completeness auto
termination
  by (relation "measure (\<lambda>(sch, i, st). length (slideEls (navigation st)) - i)") auto

declare exportLoop.simps [simp del]

text \<open>\<^verbatim>\<open>(content.title || "presentation") + ".pdf"\<close>.\<close>

definition fileName :: "string option \<Rightarrow> string" where
  "fileName t = (case truthy t of None \<Rightarrow> ''presentation'' | Some s \<Rightarrow> s) @ ''.pdf''"

definition finalizingText :: string where
  "finalizingText = ''Finalizing PDF'' @ [CHR 0xE2, CHR 0x80, CHR 0xA6]"

definition librariesMissing :: fatal where
  "librariesMissing =
     \<lparr> message = ''PDF export libraries missing (jsPDF/html2canvas). ''
                   @ ''Make sure index.html includes the CDN scripts.'',
       detail = NoDetail \<rparr>"

text \<open>
  \<^verbatim>\<open>exportToPdf\<close>; \<open>libs\<close> says whether both libraries are loaded, \<open>ttl\<close> is the title of
  the deck. A new document has one empty page.
\<close>

definition exportToPdf :: "bool \<Rightarrow> schedule \<Rightarrow> string option \<Rightarrow> exporter \<Rightarrow> exporter" where
  "exportToPdf libs sch ttl st =
     (if \<not> libs then st\<lparr>exportFatal := Some librariesMissing\<rparr>
      else
        (let st1 = setStatus ''Rendering slides to images...''
                     (st\<lparr> cancelRequested := False, exporting := True,
                          overlayHidden := map_option (\<lambda>_. False) (overlayHidden st) \<rparr>);
             st2 = awaiting (cancelEarly sch) st1;
             st3 = exportLoop sch 0 (st2\<lparr>pdfPages := [[]]\<rparr>);
             st4 = (if \<not> cancelRequested st3 then
                      (let st5 = awaiting (cancelLate sch) (setStatus finalizingText st3)
                       in st5\<lparr>saved := Some (fileName ttl, pdfPages st5)\<rparr>)
                    else setStatus ''Export canceled'' st3)
         in st4\<lparr> exporting := False,
                 overlayHidden := map_option (\<lambda>_. True) (overlayHidden st4) \<rparr>))"

text \<open>
  The image of each slide, taken while it is the visible one, and the pages of a document
  that holds the first \<open>k\<close> of the images \<open>imgs\<close>, one on each page, followed by the empty page that
  \<^verbatim>\<open>addPage\<close> leaves when more slides remain.
\<close>

definition shots :: "nav \<Rightarrow> image list" where
  "shots s = map (\<lambda>el. Png (el\<lparr>visible := True\<rparr>)) (slideEls s)"

definition committed :: "image list \<Rightarrow> nat \<Rightarrow> image list list" where
  "committed imgs k = map (\<lambda>img. [img]) (take k imgs) @ (if k < length imgs then [[]] else [])"

section \<open>Example deck\<close>

definition demoSlides :: "slide list" where
  "demoSlides =
     [\<lparr>title = Some ''Intro'', subtitle = Some ''Welcome'', noteText = None,
        body = Some [Str ''Hello'', Str ''- one'', Str ''- two'']\<rparr>,
      \<lparr>title = Some ''Middle'', subtitle = None, noteText = Some ''n'', body = None\<rparr>,
      \<lparr>title = None, subtitle = None, noteText = None, body = Some [NonStr, Str ''Bye'']\<rparr>]"

definition demoNav :: nav where
  "demoNav = startNav demoSlides (Some []) (Some [])"

definition demoExporter :: exporter where
  "demoExporter =
     \<lparr> navigation = demoNav, cancelRequested = False, exporting = False,
       overlayHidden = Some True, exportStatus = Some [], pdfPages = [], saved = None,
       exportFatal = None \<rparr>"

definition noClicks :: schedule where
  "noClicks = \<lparr> cancelEarly = False, cancelDuring = (\<lambda>i. False), cancelLate = False \<rparr>"


definition demoPage :: page where
  "demoPage =
     \<lparr> stage = Some [], counterEl = Some [], progressEl = Some [], lightText = False,
       darkText = False, cssAccent = None, cssAccent2 = None, fatalError = None \<rparr>"

definition emptyDeck :: deck where
  "emptyDeck = \<lparr> deckTitle = Some ''Deck'', theme = None, slides = Some [] \<rparr>"

definition constructorDeck :: deck where
  "constructorDeck = \<lparr> deckTitle = Some ''Deck'', theme = Some ''constructor'', slides = Some demoSlides \<rparr>"

definition interrupted :: "body_item list" where
  "interrupted = [Str ''- a'', Str ''x'', Str ''- b'']"

definition fortySlides :: "slide list" where
  "fortySlides = replicate 40 \<lparr>title = Some ''Slide'', subtitle = None, noteText = None, body = None\<rparr>"

definition fortyNav :: nav where
  "fortyNav = startNav fortySlides (Some []) (Some [])"

definition whiteTheme :: theme_entry where
  "whiteTheme = \<lparr> accent = ''#ffffff'', accent2 = ''#ffffff'', textOnAccent = ''#000000'' \<rparr>"

text \<open>A function that agrees with \<^verbatim>\<open>Math.pow\<close> at base 1.\<close>

definition powStub :: "rat \<Rightarrow> rat \<Rightarrow> rat" where
  "powStub x y = (if x = 1 then 1 else 0)"

section \<open>Navigation: clamping and visibility\<close>

lemma visible_setVisible:
  "i < length els \<Longrightarrow> visible (setVisible c els ! i) = (int i = c)"
  by (simp add: setVisible_def nth_enumerate_eq)

lemma filter_eq_index:
  "0 \<le> c \<Longrightarrow> c < int n \<Longrightarrow> filter (\<lambda>i. int i = c) [0..<n] = [nat c]"
proof (induction n)
  case 0
  then show ?case by simp
next
  case (Suc n)
  show ?case
  proof (cases "c = int n")
    case True
    have "filter (\<lambda>i. int i = c) [0..<n] = []"
      using True by (auto simp: filter_empty_conv)
    with True show ?thesis by simp
  next
    case False
    with Suc.prems have "c < int n" by simp
    with Suc.IH Suc.prems(1) have "filter (\<lambda>i. int i = c) [0..<n] = [nat c]" by simp
    with False show ?thesis by simp
  qed
qed

lemma visibleIndices_updateUI:
  "visibleIndices (updateUI s) = filter (\<lambda>i. int i = current s) [0..<length (slideEls s)]"
  unfolding visibleIndices_def
  by (rule filter_cong) (simp_all add: updateUI_def Let_def visible_setVisible)

lemma current_updateUI [simp]: "current (updateUI s) = current s"
  by (simp add: updateUI_def Let_def)

lemma current_goto:
  "slideEls s \<noteq> [] \<Longrightarrow> current (goto n s) = max 0 (min n (int (length (slideEls s)) - 1))"
  by (auto simp: goto_def Let_def)

lemma visibleIndices_goto:
  assumes "slideEls s \<noteq> []"
  shows "visibleIndices (goto n s) = [nat (current (goto n s))]"
proof -
  let ?c = "max 0 (min n (int (length (slideEls s)) - 1))"
  have len: "0 < length (slideEls s)" using assms by simp
  have g: "goto n s = updateUI (s\<lparr>current := ?c\<rparr>)"
    using assms by (auto simp: goto_def Let_def)
  have "0 \<le> ?c" "?c < int (length (slideEls s))" using len by auto
  then have "filter (\<lambda>i. int i = ?c) [0..<length (slideEls s)] = [nat ?c]"
    by (rule filter_eq_index)
  then show ?thesis
    by (simp add: g visibleIndices_updateUI)
qed

lemma goto_naive_eq:
  assumes "slideEls s \<noteq> []" "counter s \<noteq> None" "progressFill s \<noteq> None"
  shows "goto_naive n s = Inr (goto n s)"
  using assms
  by (auto simp: goto_naive_def goto_def updateUI_naive_def updateUI_def Let_def)

text \<open>
  C1: for a deck with at least one slide, \<open>goto n\<close> with any integer \<open>n\<close> sets the current
  index to \<open>max 0 (min n (N - 1))\<close>. The hardened function has no operation that can throw
  (every optional element is tested first), and afterwards exactly the slide of the new
  index is visible. The first version does the same when the counter and the progress
  element exist, which it takes for granted.
\<close>

theorem goto_clamps:
  assumes "1 \<le> length (slideEls s)"
  shows "current (goto n s) = max 0 (min n (int (length (slideEls s)) - 1))
       \<and> visibleIndices (goto n s) = [nat (max 0 (min n (int (length (slideEls s)) - 1)))]
       \<and> (counter s \<noteq> None \<and> progressFill s \<noteq> None \<longrightarrow>
            (\<exists>s'. goto_naive n s = Inr s'
                 \<and> current s' = max 0 (min n (int (length (slideEls s)) - 1))
                 \<and> visibleIndices s' = [nat (max 0 (min n (int (length (slideEls s)) - 1)))]))"
proof -
  from assms have ne: "slideEls s \<noteq> []" by auto
  have c: "current (goto n s) = max 0 (min n (int (length (slideEls s)) - 1))"
    by (rule current_goto [OF ne])
  have v: "visibleIndices (goto n s) = [nat (max 0 (min n (int (length (slideEls s)) - 1)))]"
    using visibleIndices_goto [OF ne, of n] c by simp
  show ?thesis using c v goto_naive_eq [OF ne, of n] by auto
qed

lemma demoNav_length: "length (slideEls demoNav) = 3"
  by (simp add: demoNav_def startNav_def demoSlides_def renderSlides_def)

theorem goto_clamps_witness:
  "1 \<le> length (slideEls demoNav) \<and> current (goto 7 demoNav) = 2 \<and> current (goto (- 4) demoNav) = 0
   \<and> visibleIndices (goto 7 demoNav) = [2]
   \<and> (\<exists>s'. goto_naive 7 demoNav = Inr s' \<and> current s' = 2 \<and> visibleIndices s' = [2])"
proof -
  have l: "1 \<le> length (slideEls demoNav)" by (simp add: demoNav_length)
  have cp: "counter demoNav \<noteq> None \<and> progressFill demoNav \<noteq> None"
    by (simp add: demoNav_def startNav_def goto_def updateUI_def Let_def renderSlides_def demoSlides_def)
  show ?thesis
    using l cp goto_clamps [OF l, of 7] goto_clamps [OF l, of "- 4"]
    by (simp add: demoNav_length)
qed

lemma goto_invariant:
  assumes "slideEls s \<noteq> []"
  shows "slideEls (goto n s) \<noteq> [] \<and> 0 \<le> current (goto n s)
       \<and> current (goto n s) < int (length (slideEls s))
       \<and> visibleIndices (goto n s) = [nat (current (goto n s))]"
proof -
  have "0 < length (slideEls s)" using assms by simp
  then have "0 \<le> current (goto n s)" "current (goto n s) < int (length (slideEls s))"
    by (auto simp: current_goto [OF assms])
  moreover have "length (slideEls (goto n s)) \<noteq> 0"
    using assms by simp
  then have "slideEls (goto n s) \<noteq> []" by (simp del: length_goto)
  ultimately show ?thesis using visibleIndices_goto [OF assms] by simp
qed

lemma navOk_goto:
  assumes "0 < n" and "length (slideEls s) = n"
  shows "navOk n (goto k s)"
proof -
  from assms have ne: "slideEls s \<noteq> []" by auto
  show ?thesis
    using goto_invariant [OF ne, of k] assms(2) by (simp add: navOk_def)
qed

lemma navOk_handleEvent:
  assumes "0 < n" and "navOk n s"
  shows "navOk n (handleEvent s e)"
proof -
  from assms(2) have len: "length (slideEls s) = n" by (simp add: navOk_def)
  show ?thesis
    by (cases e) (simp_all add: navOk_goto [OF assms(1) len] assms(2))
qed

lemma navOk_runEvents: "0 < n \<Longrightarrow> navOk n s \<Longrightarrow> navOk n (runEvents s evs)"
  unfolding runEvents_def
  by (induction evs arbitrary: s) (auto intro: navOk_handleEvent)

lemma length_renderSlides [simp]: "length (renderSlides ss) = length ss"
  by (simp add: renderSlides_def)

lemma navOk_startNav: "0 < length ss \<Longrightarrow> navOk (length ss) (startNav ss c p)"
  unfolding startNav_def by (rule navOk_goto) simp_all

lemma current_startNav:
  assumes "0 < length ss"
  shows "current (startNav ss c p) = 0"
proof -
  let ?s = "\<lparr>slideEls = renderSlides ss, current = 0, counter = c, progressFill = p\<rparr>"
  from assms have ne: "slideEls ?s \<noteq> []" by (cases ss) (simp_all add: renderSlides_def)
  show ?thesis
    unfolding startNav_def using current_goto [OF ne, of 0] assms by auto
qed

text \<open>
  When the container exists, the deck has slides and the theme resolves, initialisation
  shows no error and sets up exactly the state \<open>startNav\<close>, whose slide elements are the
  new children of the stage.
\<close>

lemma init_success:
  assumes "stage pg = Some old" and "slides d = Some ss" and "ss \<noteq> []"
    and "resolveTheme (theme d) = ThemeObj t"
  shows "snd (init pow (Parsed (JsonValue d)) pg) = Some (startNav ss (counterEl pg) (progressEl pg))
       \<and> stage (fst (init pow (Parsed (JsonValue d)) pg))
           = Some (slideEls (startNav ss (counterEl pg) (progressEl pg)))
       \<and> fatalError (fst (init pow (Parsed (JsonValue d)) pg)) = fatalError pg"
  using assms
  by (auto simp: init_def applyTheme_def lum_def accentOf_def Let_def split: option.splits prod.splits)

text \<open>
  Rendering followed by the first \<^verbatim>\<open>goto(0)\<close>, for at least one slide: exactly one slide
  element is visible and it is the first; after any sequence of navigation triggers exactly
  one slide element is visible, the one of the current index, and \<open>0 \<le> current < N\<close>.
\<close>

lemma startNav_one_visible_slide:
  assumes "1 \<le> length ss"
  shows "visibleIndices (startNav ss c p) = [0]
       \<and> (\<forall>evs. visibleIndices (runEvents (startNav ss c p) evs)
                   = [nat (current (runEvents (startNav ss c p) evs))]
               \<and> 0 \<le> current (runEvents (startNav ss c p) evs)
               \<and> current (runEvents (startNav ss c p) evs) < int (length ss)
               \<and> length (slideEls (runEvents (startNav ss c p) evs)) = length ss)"
proof -
  from assms have pos: "0 < length ss" by (cases ss) simp_all
  have ok: "navOk (length ss) (startNav ss c p)" by (rule navOk_startNav [OF pos])
  have "visibleIndices (startNav ss c p) = [0]"
    using ok current_startNav [OF pos, of c p] by (simp add: navOk_def)
  moreover have "navOk (length ss) (runEvents (startNav ss c p) evs)" for evs
    by (rule navOk_runEvents [OF pos ok])
  ultimately show ?thesis by (simp add: navOk_def)
qed

lemma startNav_one_visible_slide_example:
  "1 \<le> length demoSlides \<and> visibleIndices (startNav demoSlides None None) = [0]
   \<and> visibleIndices (runEvents (startNav demoSlides None None) [NextClick, KeySpace, KeyArrowRight, PrevClick]) = [1]
   \<and> current (runEvents (startNav demoSlides None None) [NextClick, KeySpace, KeyArrowRight, PrevClick]) = 1"
proof -
  have l: "1 \<le> length demoSlides" by (simp add: demoSlides_def)
  have c: "current (runEvents (startNav demoSlides None None) [NextClick, KeySpace, KeyArrowRight, PrevClick]) = 1"
    by code_simp
  show ?thesis
    using l c startNav_one_visible_slide [OF l, of None None] by simp
qed

section \<open>The two versions of the navigation code\<close>

text \<open>
  C10: with at least one slide and with the counter and the progress element present, the
  first version's \<open>goto\<close> and \<open>updateUI\<close> return without error and give the same state
  as the hardened ones: the same index, the same counter text, the same progress width.
\<close>

theorem naive_hardened_equivalent:
  assumes "1 \<le> length (slideEls s)" and "counter s = Some ct" and "progressFill s = Some pw"
  shows "goto_naive n s = Inr (goto n s)
       \<and> updateUI_naive s = Inr (updateUI s)
       \<and> current (goto n s) = max 0 (min n (int (length (slideEls s)) - 1))
       \<and> counter (goto n s) = Some (counterText (current (goto n s)) (length (slideEls s)))
       \<and> progressFill (goto n s) = Some (pctText (current (goto n s)) (length (slideEls s)) @ ''%'')"
proof -
  from assms have ne: "slideEls s \<noteq> []" by auto
  have "goto_naive n s = Inr (goto n s)"
    using assms(2,3) by (intro goto_naive_eq [OF ne]) simp_all
  moreover have "updateUI_naive s = Inr (updateUI s)"
    using assms(2,3) by (simp add: updateUI_naive_def updateUI_def Let_def)
  moreover have "counter (goto n s) = Some (counterText (current (goto n s)) (length (slideEls s)))"
    using ne assms(2) by (auto simp: goto_def updateUI_def Let_def)
  moreover have "progressFill (goto n s) = Some (pctText (current (goto n s)) (length (slideEls s)) @ ''%'')"
    using ne assms(3) by (auto simp: goto_def updateUI_def Let_def)
  ultimately show ?thesis using current_goto [OF ne, of n] by simp
qed

theorem naive_hardened_equivalent_witness:
  "1 \<le> length (slideEls demoNav) \<and> counter demoNav = Some ''1 / 3'' \<and> progressFill demoNav = Some ''33%''
   \<and> goto_naive 1 demoNav = Inr (goto 1 demoNav) \<and> counter (goto 1 demoNav) = Some ''2 / 3''
   \<and> progressFill (goto 1 demoNav) = Some ''67%''"
proof -
  have l: "1 \<le> length (slideEls demoNav)" by (simp add: demoNav_length)
  have c: "counter demoNav = Some ''1 / 3''" by code_simp
  have p: "progressFill demoNav = Some ''33%''" by code_simp
  have c1: "current (goto 1 demoNav) = 1" by code_simp
  have t: "counterText 1 3 = ''2 / 3''" by code_simp
  have q: "pctText 1 3 = ''67''" by code_simp
  show ?thesis
    using l c p naive_hardened_equivalent [OF l c p, of 1]
    by (simp add: demoNav_length c1 t q)
qed

section \<open>Export: pages, order and cancellation\<close>

lemma nth_setVisible:
  "i < length els \<Longrightarrow> setVisible c els ! i = (els ! i)\<lparr>visible := (int i = c)\<rparr>"
  by (simp add: setVisible_def nth_enumerate_eq)

lemma shots_setVisible: "map (\<lambda>el. Png (el\<lparr>visible := True\<rparr>)) (setVisible c els) = map (\<lambda>el. Png (el\<lparr>visible := True\<rparr>)) els"
  by (rule nth_equalityI) (simp_all add: nth_setVisible)

lemma shots_goto [simp]: "shots (goto n s) = shots s"
  by (simp add: shots_def goto_def updateUI_def Let_def shots_setVisible)

lemma length_shots [simp]: "length (shots s) = length (slideEls s)"
  by (simp add: shots_def)

lemma nth_goto_self:
  assumes "i < length (slideEls s)"
  shows "Png (slideEls (goto (int i) s) ! i) = shots s ! i"
proof -
  from assms have ne: "slideEls s \<noteq> []" by auto
  have "max 0 (min (int i) (int (length (slideEls s)) - 1)) = int i" using assms by auto
  then have "goto (int i) s = updateUI (s\<lparr>current := int i\<rparr>)"
    using ne by (auto simp: goto_def Let_def)
  then show ?thesis
    using assms by (simp add: updateUI_def Let_def nth_setVisible shots_def)
qed

lemma exportLoop_stop:
  "length (slideEls (navigation st)) \<le> i \<or> cancelRequested st \<Longrightarrow> exportLoop sch i st = st"
  by (subst exportLoop.simps) auto

lemma exportLoop_step:
  "i < length (slideEls (navigation st)) \<Longrightarrow> \<not> cancelRequested st \<Longrightarrow>
   exportLoop sch i st = exportLoop sch (i + 1) (exportSlide sch i st)"
  by (subst exportLoop.simps) simp

lemma committed_Suc:
  assumes "i < length imgs"
  shows "(let pgs = addImage (imgs ! i) (committed imgs i)
          in if i + 1 < length imgs then addPage pgs else pgs) = committed imgs (i + 1)"
  using assms by (simp add: committed_def addImage_def addPage_def take_Suc_conv_app_nth Let_def)

lemma exportSlide_effect:
  assumes "i < length (slideEls (navigation st))"
  shows "pdfPages (exportSlide sch i st)
           = (let pgs = addImage (shots (navigation st) ! i) (pdfPages st)
              in if i + 1 < length (slideEls (navigation st)) then addPage pgs else pgs)"
    and "cancelRequested (exportSlide sch i st) = (cancelRequested st \<or> cancelDuring sch i)"
    and "saved (exportSlide sch i st) = saved st"
    and "shots (navigation (exportSlide sch i st)) = shots (navigation st)"
    and "exportFatal (exportSlide sch i st) = exportFatal st"
  using assms nth_goto_self [OF assms]
  by (simp_all add: exportSlide_def Let_def setStatus_def awaiting_def cancelClick_def)

lemma exportLoop_run:
  assumes "i \<le> m" and "m \<le> length (slideEls (navigation st))"
    and "\<not> cancelRequested st"
    and "pdfPages st = committed (shots (navigation st)) i"
    and "\<forall>j. i \<le> j \<and> j + 1 < m \<longrightarrow> \<not> cancelDuring sch j"
    and "m < length (slideEls (navigation st)) \<longrightarrow> i < m \<and> cancelDuring sch (m - 1)"
  shows "pdfPages (exportLoop sch i st) = committed (shots (navigation st)) m
       \<and> cancelRequested (exportLoop sch i st) = (i < m \<and> cancelDuring sch (m - 1))
       \<and> saved (exportLoop sch i st) = saved st
       \<and> shots (navigation (exportLoop sch i st)) = shots (navigation st)
       \<and> exportFatal (exportLoop sch i st) = exportFatal st"
  using assms
proof (induction "m - i" arbitrary: i st)
  case 0
  then have "i = m" by simp
  with 0 have "length (slideEls (navigation st)) \<le> i" by auto
  then have "exportLoop sch i st = st" by (simp add: exportLoop_stop)
  with \<open>i = m\<close> 0 show ?case by simp
next
  case (Suc d)
  let ?N = "length (slideEls (navigation st))"
  let ?st = "exportSlide sch i st"
  from Suc have im: "i < m" and iN: "i < ?N" by auto
  have step: "exportLoop sch i st = exportLoop sch (i + 1) ?st"
    using iN Suc.prems(3) by (rule exportLoop_step)
  have pg: "pdfPages ?st = committed (shots (navigation st)) (i + 1)"
    using exportSlide_effect(1) [OF iN, of sch] committed_Suc [of i "shots (navigation st)"] iN
    by (simp add: Suc.prems(4))
  have cr: "cancelRequested ?st = cancelDuring sch i"
    using exportSlide_effect(2) [OF iN, of sch] Suc.prems(3) by simp
  have sh: "shots (navigation ?st) = shots (navigation st)"
    by (rule exportSlide_effect(4) [OF iN])
  show ?case
  proof (cases "i + 1 = m")
    case True
    have "?N \<le> i + 1 \<or> cancelRequested ?st"
      using True Suc.prems(2,6) cr by auto
    then have "exportLoop sch (i + 1) ?st = ?st"
      by (intro exportLoop_stop) simp
    with step pg cr sh True exportSlide_effect(3,5) [OF iN, of sch] show ?thesis by auto
  next
    case False
    with im have lt: "i + 1 < m" by simp
    then have nc: "\<not> cancelRequested ?st" using cr Suc.prems(5) by auto
    have "pdfPages (exportLoop sch (i + 1) ?st) = committed (shots (navigation ?st)) m
       \<and> cancelRequested (exportLoop sch (i + 1) ?st) = (i + 1 < m \<and> cancelDuring sch (m - 1))
       \<and> saved (exportLoop sch (i + 1) ?st) = saved ?st
       \<and> shots (navigation (exportLoop sch (i + 1) ?st)) = shots (navigation ?st)
       \<and> exportFatal (exportLoop sch (i + 1) ?st) = exportFatal ?st"
    proof (rule Suc.hyps(1))
      show "d = m - (i + 1)" using Suc.hyps(2) by simp
      show "i + 1 \<le> m" using lt by simp
      show "m \<le> length (slideEls (navigation ?st))" using Suc.prems(2) by simp
      show "\<not> cancelRequested ?st" by (rule nc)
      show "pdfPages ?st = committed (shots (navigation ?st)) (i + 1)" using pg sh by simp
      show "\<forall>j. i + 1 \<le> j \<and> j + 1 < m \<longrightarrow> \<not> cancelDuring sch j" using Suc.prems(5) by auto
      show "m < length (slideEls (navigation ?st)) \<longrightarrow> i + 1 < m \<and> cancelDuring sch (m - 1)"
        using Suc.prems(6) lt by simp
    qed
    with step sh lt im exportSlide_effect(3,5) [OF iN, of sch] show ?thesis by auto
  qed
qed


lemma exportToPdf_loop:
  "exportToPdf True sch ttl st =
     (let st3 = exportLoop sch 0
                  ((awaiting (cancelEarly sch)
                     (setStatus ''Rendering slides to images...''
                        (st\<lparr> cancelRequested := False, exporting := True,
                             overlayHidden := map_option (\<lambda>_. False) (overlayHidden st) \<rparr>)))
                   \<lparr>pdfPages := [[]]\<rparr>);
          st4 = (if \<not> cancelRequested st3 then
                   (let st5 = awaiting (cancelLate sch) (setStatus finalizingText st3)
                    in st5\<lparr>saved := Some (fileName ttl, pdfPages st5)\<rparr>)
                 else setStatus ''Export canceled'' st3)
      in st4\<lparr> exporting := False, overlayHidden := map_option (\<lambda>_. True) (overlayHidden st4) \<rparr>)"
  by (simp add: exportToPdf_def Let_def)

lemma navigation_setStatus [simp]: "navigation (setStatus t st) = navigation st"
  by (simp add: setStatus_def)

lemma pdfPages_awaiting [simp]: "pdfPages (awaiting c st) = pdfPages st"
  by (simp add: awaiting_def cancelClick_def)

lemma saved_awaiting [simp]: "saved (awaiting c st) = saved st"
  by (simp add: awaiting_def cancelClick_def)

lemma cancelRequested_awaiting [simp]:
  "cancelRequested (awaiting c st) = (c \<or> cancelRequested st)"
  by (simp add: awaiting_def cancelClick_def)

text \<open>
  C6: an export of a deck of \<open>N \<ge> 1\<close> slides during which no cancel click arrives before the
  loop has ended saves a document of exactly \<open>N\<close> pages, page \<open>j\<close> holding the one image of
  slide \<open>j\<close>, under the title of the deck followed by \<^verbatim>\<open>.pdf\<close>, or under
  \<^verbatim>\<open>presentation.pdf\<close> when the deck has no title (an empty title counts as none).
\<close>

theorem export_complete:
  assumes "1 \<le> length (slideEls (navigation st))"
    and "\<not> cancelEarly sch"
    and "\<forall>j < length (slideEls (navigation st)). \<not> cancelDuring sch j"
  shows "saved (exportToPdf True sch ttl st)
           = Some (fileName ttl, map (\<lambda>img. [img]) (shots (navigation st)))
       \<and> length (map (\<lambda>img. [img]) (shots (navigation st))) = length (slideEls (navigation st))
       \<and> (\<forall>j < length (slideEls (navigation st)).
             map (\<lambda>img. [img]) (shots (navigation st)) ! j
               = [Png ((slideEls (navigation st) ! j)\<lparr>visible := True\<rparr>)])
       \<and> (ttl = None \<or> ttl = Some [] \<longrightarrow> fileName ttl = ''presentation.pdf'')
       \<and> (\<forall>t. ttl = Some t \<and> t \<noteq> [] \<longrightarrow> fileName ttl = t @ ''.pdf'')"
proof -
  let ?N = "length (slideEls (navigation st))"
  let ?st2 = "(awaiting (cancelEarly sch)
                 (setStatus ''Rendering slides to images...''
                    (st\<lparr> cancelRequested := False, exporting := True,
                         overlayHidden := map_option (\<lambda>_. False) (overlayHidden st) \<rparr>)))
              \<lparr>pdfPages := [[]]\<rparr>"
  have nav2: "navigation ?st2 = navigation st" by (simp add: setStatus_def)
  have pos: "0 < ?N" using assms(1) by (simp add: Suc_le_eq)
  have run: "pdfPages (exportLoop sch 0 ?st2) = committed (shots (navigation ?st2)) ?N
       \<and> cancelRequested (exportLoop sch 0 ?st2) = (0 < ?N \<and> cancelDuring sch (?N - 1))
       \<and> saved (exportLoop sch 0 ?st2) = saved ?st2
       \<and> shots (navigation (exportLoop sch 0 ?st2)) = shots (navigation ?st2)
       \<and> exportFatal (exportLoop sch 0 ?st2) = exportFatal ?st2"
  proof (rule exportLoop_run)
    show "0 \<le> ?N" by simp
    show "?N \<le> length (slideEls (navigation ?st2))" by (simp add: nav2)
    show "\<not> cancelRequested ?st2" using assms(2) by (simp add: setStatus_def)
    show "pdfPages ?st2 = committed (shots (navigation ?st2)) 0"
      using pos by (simp add: committed_def nav2)
    show "\<forall>j. 0 \<le> j \<and> j + 1 < ?N \<longrightarrow> \<not> cancelDuring sch j" using assms(3) by simp
    show "?N < length (slideEls (navigation ?st2)) \<longrightarrow> 0 < ?N \<and> cancelDuring sch (?N - 1)"
      by (simp add: nav2)
  qed
  have nc: "\<not> cancelRequested (exportLoop sch 0 ?st2)"
    using run assms(3) pos by simp
  have pgs: "pdfPages (exportLoop sch 0 ?st2) = map (\<lambda>img. [img]) (shots (navigation st))"
    using run by (simp add: committed_def nav2)
  have "saved (exportToPdf True sch ttl st)
          = Some (fileName ttl, map (\<lambda>img. [img]) (shots (navigation st)))"
    using nc pgs by (simp add: exportToPdf_loop Let_def setStatus_def)
  moreover have "\<forall>j < ?N. map (\<lambda>img. [img]) (shots (navigation st)) ! j
               = [Png ((slideEls (navigation st) ! j)\<lparr>visible := True\<rparr>)]"
    by (simp add: shots_def)
  ultimately show ?thesis
    by (auto simp: fileName_def truthy_def)
qed

lemma demoExporter_length: "length (slideEls (navigation demoExporter)) = 3"
  by (simp add: demoExporter_def demoNav_length)

lemma map_three: "length xs = 3 \<Longrightarrow> map f xs = [f (xs ! 0), f (xs ! 1), f (xs ! 2)]"
  by (auto simp: length_Suc_conv numeral_3_eq_3 numeral_2_eq_2)

theorem export_complete_witness:
  "1 \<le> length (slideEls (navigation demoExporter)) \<and> \<not> cancelEarly noClicks
   \<and> saved (exportToPdf True noClicks (Some ''Deck'') demoExporter)
       = Some (''Deck.pdf'', [[shots demoNav ! 0], [shots demoNav ! 1], [shots demoNav ! 2]])"
proof -
  have a: "1 \<le> length (slideEls (navigation demoExporter))" by (simp add: demoExporter_length)
  have b: "\<not> cancelEarly noClicks" by (simp add: noClicks_def)
  have c: "\<forall>j < length (slideEls (navigation demoExporter)). \<not> cancelDuring noClicks j"
    by (simp add: noClicks_def)
  have n: "navigation demoExporter = demoNav" by (simp add: demoExporter_def)
  have l: "length (shots demoNav) = 3" by (simp add: demoNav_length)
  have m: "map (\<lambda>img. [img]) (shots demoNav)
             = [[shots demoNav ! 0], [shots demoNav ! 1], [shots demoNav ! 2]]"
    by (rule map_three [OF l])
  show ?thesis
    using a b export_complete [OF a b c, of "Some ''Deck''"]
    by (simp add: n m fileName_def truthy_def)
qed



section \<open>Body rendering\<close>

lemma strings_append: "strings (xs @ ys) = strings xs @ strings ys"
  by (induction xs rule: strings.induct) simp_all

lemma dropWhile_nil_iff: "dropWhile Q xs = [] \<longleftrightarrow> (\<forall>x\<in>set xs. Q x)"
  by (induction xs) auto

lemma takeWhile_all: "\<forall>x\<in>set xs. Q x \<Longrightarrow> takeWhile Q xs = xs"
  by (induction xs) simp_all

lemma dropWhile_all: "\<forall>x\<in>set xs. Q x \<Longrightarrow> dropWhile Q xs = []"
  by (induction xs) simp_all

lemma singleList_paras:
  "\<forall>x\<in>set ss. \<not> isBullet x \<Longrightarrow> singleList ss = map P ss"
  "\<forall>x\<in>set ss. \<not> isBullet x \<Longrightarrow> listPos ss = None"
  by (simp_all add: singleList_def listPos_def Let_def takeWhile_all dropWhile_all)

lemma singleList_bullets:
  assumes "\<not> (\<forall>x\<in>set ss. \<not> isBullet x)"
  shows "singleList ss = map P (takeWhile (\<lambda>s. \<not> isBullet s) ss)
           @ UL (map replaceMarker (filter isBullet (dropWhile (\<lambda>s. \<not> isBullet s) ss)))
             # map P (filter (\<lambda>s. \<not> isBullet s) (dropWhile (\<lambda>s. \<not> isBullet s) ss))"
    and "listPos ss = Some (length (takeWhile (\<lambda>s. \<not> isBullet s) ss))"
  using assms by (simp_all add: singleList_def listPos_def Let_def)

lemma singleList_snoc_para:
  assumes "\<not> isBullet par"
  shows "singleList (ss @ [par]) = singleList ss @ [P par]"
    and "listPos (ss @ [par]) = listPos ss"
proof -
  let ?Q = "\<lambda>s. \<not> isBullet s"
  have "singleList (ss @ [par]) = singleList ss @ [P par] \<and> listPos (ss @ [par]) = listPos ss"
  proof (cases "\<forall>x\<in>set ss. ?Q x")
    case True
    then have "\<forall>x\<in>set (ss @ [par]). ?Q x" using assms by simp
    then show ?thesis using True by (simp add: singleList_paras del: set_append)
  next
    case False
    then have ex: "\<not> (\<forall>x\<in>set (ss @ [par]). ?Q x)" by simp
    from False have f: "takeWhile ?Q (ss @ [par]) = takeWhile ?Q ss"
      "dropWhile ?Q (ss @ [par]) = dropWhile ?Q ss @ [par]"
      by (auto simp: takeWhile_append1 dropWhile_append1)
    show ?thesis
      unfolding singleList_bullets [OF ex] singleList_bullets [OF False] f
      using assms by simp
  qed
  then show "singleList (ss @ [par]) = singleList ss @ [P par]"
    and "listPos (ss @ [par]) = listPos ss" by simp_all
qed

lemma listPos_None: "listPos ss = None \<Longrightarrow> \<forall>x\<in>set ss. \<not> isBullet x"
  by (simp add: listPos_def split: if_splits)

lemma listPos_Some: "listPos ss = Some i \<Longrightarrow> \<not> (\<forall>x\<in>set ss. \<not> isBullet x)"
  by (simp add: listPos_def split: if_splits)

lemma singleList_snoc_bullet_first:
  assumes "isBullet par" and "listPos ss = None"
  shows "singleList (ss @ [par]) = singleList ss @ [UL [replaceMarker par]]"
    and "listPos (ss @ [par]) = Some (length (singleList ss))"
proof -
  let ?Q = "\<lambda>s. \<not> isBullet s"
  have all: "\<forall>x\<in>set ss. ?Q x" by (rule listPos_None [OF assms(2)])
  have ex: "\<not> (\<forall>x\<in>set (ss @ [par]). ?Q x)" using assms(1) by simp
  have f: "takeWhile ?Q (ss @ [par]) = ss" "dropWhile ?Q (ss @ [par]) = [par]"
    using all assms(1) by (simp_all add: takeWhile_all dropWhile_all)
  show "singleList (ss @ [par]) = singleList ss @ [UL [replaceMarker par]]"
    unfolding singleList_bullets [OF ex] f singleList_paras(1) [OF all]
    using assms(1) by simp
  show "listPos (ss @ [par]) = Some (length (singleList ss))"
    unfolding singleList_bullets [OF ex] f singleList_paras(1) [OF all] by simp
qed

lemma singleList_snoc_bullet_later:
  assumes "isBullet par" and "listPos ss = Some i"
  shows "singleList (ss @ [par]) = (singleList ss)[i := appendLi (singleList ss ! i) (replaceMarker par)]"
    and "listPos (ss @ [par]) = Some i"
proof -
  let ?Q = "\<lambda>s. \<not> isBullet s"
  have ex0: "\<not> (\<forall>x\<in>set ss. ?Q x)" by (rule listPos_Some [OF assms(2)])
  then have ex: "\<not> (\<forall>x\<in>set (ss @ [par]). ?Q x)" by simp
  have i: "i = length (takeWhile ?Q ss)"
    using assms(2) singleList_bullets(2) [OF ex0] by simp
  from ex0 have f: "takeWhile ?Q (ss @ [par]) = takeWhile ?Q ss"
      "dropWhile ?Q (ss @ [par]) = dropWhile ?Q ss @ [par]"
    by (auto simp: takeWhile_append1 dropWhile_append1)
  show "singleList (ss @ [par]) = (singleList ss)[i := appendLi (singleList ss ! i) (replaceMarker par)]"
    unfolding singleList_bullets [OF ex] singleList_bullets [OF ex0] f i
    using assms(1) by (simp add: list_update_append nth_append)
  show "listPos (ss @ [par]) = Some i"
    unfolding singleList_bullets [OF ex] f i by simp
qed

lemma foldl_renderItem:
  "foldl renderItem ([], None) items = (singleList (strings items), listPos (strings items))"
proof (induction items rule: rev_induct)
  case Nil
  show ?case by (simp add: singleList_def listPos_def)
next
  case (snoc x items)
  show ?case
  proof (cases x)
    case NonStr
    with snoc show ?thesis by (simp add: strings_append)
  next
    case (Str par)
    show ?thesis
    proof (cases "isBullet par")
      case False
      with snoc Str show ?thesis
        by (simp add: strings_append singleList_snoc_para)
    next
      case True
      show ?thesis
      proof (cases "listPos (strings items)")
        case None
        with snoc Str True show ?thesis
          by (simp add: strings_append singleList_snoc_bullet_first)
      next
        case (Some i)
        with snoc Str True show ?thesis
          by (simp add: strings_append singleList_snoc_bullet_later)
      qed
    qed
  qed
qed

lemma findUl_paras [simp]: "findUl (map P ss) = None"
  by (induction ss) simp_all

lemma findUl_paras_UL [simp]: "findUl (map P ss @ UL its # ns) = Some (length ss)"
  by (induction ss) simp_all

lemma findUl_singleList: "findUl (singleList ss) = listPos ss"
proof (cases "\<forall>x\<in>set ss. \<not> isBullet x")
  case True
  then show ?thesis by (simp add: singleList_paras)
next
  case False
  show ?thesis unfolding singleList_bullets [OF False] by simp
qed

lemma foldl_renderItem_naive:
  "foldl renderItem_naive [] items = singleList (strings items)"
proof (induction items rule: rev_induct)
  case Nil
  show ?case by (simp add: singleList_def)
next
  case (snoc x items)
  show ?case
  proof (cases x)
    case NonStr
    with snoc show ?thesis by (simp add: strings_append)
  next
    case (Str par)
    show ?thesis
    proof (cases "isBullet par")
      case False
      with snoc Str show ?thesis
        by (simp add: strings_append singleList_snoc_para)
    next
      case True
      show ?thesis
      proof (cases "listPos (strings items)")
        case None
        with snoc Str True show ?thesis
          by (simp add: strings_append singleList_snoc_bullet_first findUl_singleList)
      next
        case (Some i)
        with snoc Str True show ?thesis
          by (simp add: strings_append singleList_snoc_bullet_later findUl_singleList)
      qed
    qed
  qed
qed

lemma groupRuns_paras: "\<forall>s\<in>set ss. \<not> isBullet s \<Longrightarrow> groupRuns ss = map P ss"
  by (induction ss) simp_all

lemma filter_run:
  "\<forall>x\<in>set (dropWhile Q xs). \<not> Q x \<Longrightarrow>
   filter Q xs = takeWhile Q xs \<and> filter (\<lambda>x. \<not> Q x) xs = dropWhile Q xs"
proof (induction xs)
  case Nil
  show ?case by simp
next
  case (Cons a xs)
  show ?case
  proof (cases "Q a")
    case True
    with Cons.prems have p: "\<forall>x\<in>set (dropWhile Q xs). \<not> Q x" by simp
    have "filter Q xs = takeWhile Q xs" "filter (\<lambda>x. \<not> Q x) xs = dropWhile Q xs"
      using Cons.IH [OF p] by blast+
    then show ?thesis using True by (simp only: filter.simps takeWhile.simps dropWhile.simps if_True if_False simp_thms)
  next
    case False
    with Cons.prems have all: "\<forall>x\<in>set (a # xs). \<not> Q x" by simp
    then have "filter Q (a # xs) = []" "filter (\<lambda>x. \<not> Q x) (a # xs) = a # xs"
      by (simp_all only: filter_empty_conv filter_id_conv simp_thms)
    then show ?thesis using False by (simp only: takeWhile.simps dropWhile.simps if_False simp_thms)
  qed
qed

lemma singleList_Cons_bullet:
  "isBullet s \<Longrightarrow>
   singleList (s # ss) = UL (map replaceMarker (s # filter isBullet ss))
                           # map P (filter (\<lambda>s. \<not> isBullet s) ss)"
  by (simp add: singleList_def)

lemma singleList_Cons_para: "\<not> isBullet s \<Longrightarrow> singleList (s # ss) = P s # singleList ss"
  by (simp add: singleList_def Let_def)

lemma oneRun_Cons_bullet:
  "isBullet s \<Longrightarrow> oneRun (s # ss) \<Longrightarrow> \<forall>x\<in>set (dropWhile isBullet ss). \<not> isBullet x"
  by (simp add: oneRun_def list_all_iff)

lemma oneRun_Cons_para: "\<not> isBullet s \<Longrightarrow> oneRun (s # ss) \<Longrightarrow> oneRun ss"
  by (simp add: oneRun_def)

lemma groupRuns_oneRun: "oneRun ss \<Longrightarrow> groupRuns ss = singleList ss"
proof (induction ss)
  case Nil
  show ?case by (simp add: singleList_def)
next
  case (Cons s ss)
  show ?case
  proof (cases "isBullet s")
    case True
    have all: "\<forall>x\<in>set (dropWhile isBullet ss). \<not> isBullet x"
      by (rule oneRun_Cons_bullet [OF True Cons.prems])
    have g: "groupRuns (s # ss)
               = UL (map replaceMarker (s # takeWhile isBullet ss)) # map P (dropWhile isBullet ss)"
      by (simp only: groupRuns.simps True if_True groupRuns_paras [OF all])
    show ?thesis
      by (simp only: g singleList_Cons_bullet [OF True] filter_run [OF all])
  next
    case False
    have "groupRuns ss = singleList ss"
      by (rule Cons.IH [OF oneRun_Cons_para [OF False Cons.prems]])
    then show ?thesis
      by (simp only: groupRuns.simps False if_False singleList_Cons_para [OF False])
  qed
qed

text \<open>
  C2 (as the code has it): all bullet lines of a body are rendered, in body order, into one
  single list, placed where the first bullet line is; the other strings are paragraphs in
  body order before and after it. Consecutive bullet lines are thus coalesced, and a bullet
  run after an interrupting paragraph joins the same list. Both versions do this. When the
  bullet lines of the body are consecutive, the rendered order is the body order, each run
  a list of its own.
\<close>

theorem bullets_form_single_list:
  "renderBody (Some items) = singleList (strings items)
   \<and> renderBody_naive (Some items) = singleList (strings items)
   \<and> (oneRun (strings items) \<longrightarrow> renderBody (Some items) = renderBody_spec (Some items))"
  using groupRuns_oneRun [of "strings items"]
  by (simp add: renderBody_def renderBody_naive_def renderBody_spec_def foldl_renderItem foldl_renderItem_naive)

theorem bullets_form_single_list_witness:
  "oneRun (strings [Str ''Intro'', Str (bulletDot @ ''point one''), Str (bulletDot @ ''point two''), Str ''Outro''])
   \<and> renderBody (Some [Str ''Intro'', Str (bulletDot @ ''point one''), Str (bulletDot @ ''point two''), Str ''Outro''])
       = [P ''Intro'', UL [''point one'', ''point two''], P ''Outro'']
   \<and> renderBody_spec (Some [Str ''Intro'', Str (bulletDot @ ''point one''), Str (bulletDot @ ''point two''), Str ''Outro''])
       = [P ''Intro'', UL [''point one'', ''point two''], P ''Outro'']"
proof -
  let ?b = "[Str ''Intro'', Str (bulletDot @ ''point one''), Str (bulletDot @ ''point two''), Str ''Outro'']"
  let ?V = "[P ''Intro'', UL [''point one'', ''point two''], P ''Outro'']"
  have o: "oneRun (strings ?b)" by code_simp
  have s: "singleList (strings ?b) = ?V" by code_simp
  note t = bullets_form_single_list [of ?b]
  from t have r1: "renderBody (Some ?b) = singleList (strings ?b)" by (rule conjunct1)
  from t o have r3: "renderBody (Some ?b) = renderBody_spec (Some ?b)" by blast
  have A: "renderBody (Some ?b) = ?V" by (rule trans [OF r1 s])
  have B: "renderBody_spec (Some ?b) = ?V" by (rule trans [OF r3 [symmetric] A])
  show ?thesis by (intro conjI o A B)
qed

text \<open>
  C2 as stated fails: in the body \<^verbatim>\<open>["- a", "x", "- b"]\<close> the second bullet run gets no list
  of its own and is rendered before the paragraph that precedes it in the body.
\<close>

theorem interrupted_bullets_counterexample:
  "renderBody (Some interrupted) = [UL [''a'', ''b''], P ''x'']
   \<and> renderBody_naive (Some interrupted) = [UL [''a'', ''b''], P ''x'']
   \<and> renderBody_spec (Some interrupted) = [UL [''a''], P ''x'', UL [''b'']]
   \<and> renderBody (Some interrupted) \<noteq> renderBody_spec (Some interrupted)"
proof -
  have a: "renderBody (Some interrupted) = [UL [''a'', ''b''], P ''x'']" by code_simp
  have b: "renderBody_naive (Some interrupted) = [UL [''a'', ''b''], P ''x'']" by code_simp
  have c: "renderBody_spec (Some interrupted) = [UL [''a''], P ''x'', UL [''b'']]" by code_simp
  show ?thesis by (simp add: a b c)
qed

section \<open>Loading and theme resolution\<close>

text \<open>
  C5: when the fetched content parses but has no slides (the payload is \<^verbatim>\<open>null\<close>, or its
  \<^verbatim>\<open>slides\<close> property is absent, not an array, or empty), initialisation ends with the
  fatal panel shown, sets up no navigation, and leaves the render container as it was: no
  slide element is created. For a payload other than \<^verbatim>\<open>null\<close> the panel carries the
  zero-slides message and the payload.
\<close>

theorem no_slides_is_fatal:
  assumes "stage pg = Some old"
    and "c = JsonNull \<or> (\<exists>d. c = JsonValue d \<and> (slides d = None \<or> slides d = Some []))"
  shows "(\<exists>f. init pow (Parsed c) pg = (pg\<lparr>fatalError := Some f\<rparr>, None)
              \<and> (c \<noteq> JsonNull \<longrightarrow> f = \<lparr>message = zeroSlides, detail = PayloadSnippet c\<rparr>))
       \<and> stage (fst (init pow (Parsed c) pg)) = Some old
       \<and> fatalError (fst (init pow (Parsed c) pg)) \<noteq> None
       \<and> snd (init pow (Parsed c) pg) = None"
  using assms
  by (auto simp: init_def showFatal_def zeroSlides_def)

theorem no_slides_is_fatal_witness:
  "stage demoPage = Some []
   \<and> init (\<lambda>x y. 1) (Parsed (JsonValue emptyDeck)) demoPage
       = (demoPage\<lparr>fatalError := Some \<lparr>message = zeroSlides, detail = PayloadSnippet (JsonValue emptyDeck)\<rparr>\<rparr>, None)
   \<and> stage (fst (init (\<lambda>x y. 1) (Parsed (JsonValue emptyDeck)) demoPage)) = Some []"
proof -
  have a: "stage demoPage = Some []" by (simp add: demoPage_def)
  have b: "JsonValue emptyDeck = JsonNull
           \<or> (\<exists>d. JsonValue emptyDeck = JsonValue d \<and> (slides d = None \<or> slides d = Some []))"
    by (simp add: emptyDeck_def)
  show ?thesis
    using a no_slides_is_fatal [OF a b, of "\<lambda>x y. 1"] by auto
qed

lemma toLowerCase_constructor: "toLowerCase ''constructor'' = ''constructor''"
  by code_simp

lemma resolve_constructor: "resolveTheme (Some ''constructor'') = ProtoMember"
  by code_simp

text \<open>
  C9: the theme name \<^verbatim>\<open>constructor\<close> is unknown, yet it does not resolve to the default
  theme: the lookup finds the member inherited from \<^verbatim>\<open>Object.prototype\<close>, the fallback is
  not taken, the accent is \<^verbatim>\<open>undefined\<close>, and initialisation ends in the outer
  \<^verbatim>\<open>catch\<close> with a fatal error before any slide is rendered.
\<close>

theorem unknown_theme_constructor_fails:
  "resolveTheme (Some ''constructor'') = ProtoMember
   \<and> resolveTheme (Some ''constructor'') \<noteq> ThemeObj pinkTheme
   \<and> resolveTheme_naive (Some ''constructor'') = ProtoMember
   \<and> accentOf (resolveTheme (Some ''constructor'')) = None
   \<and> lum pow (accentOf (resolveTheme (Some ''constructor''))) = Inl TypeError
   \<and> fatalError (fst (init pow (Parsed (JsonValue constructorDeck)) demoPage))
       = Some \<lparr>message = ''Unexpected error in app.js.'', detail = ErrorStack TypeError\<rparr>
   \<and> stage (fst (init pow (Parsed (JsonValue constructorDeck)) demoPage)) = stage demoPage
   \<and> snd (init pow (Parsed (JsonValue constructorDeck)) demoPage) = None"
proof -
  have n: "resolveTheme_naive (Some ''constructor'') = ProtoMember" by code_simp
  show ?thesis
    by (simp add: n resolve_constructor accentOf_def accent2Of_def init_def constructorDeck_def
        demoPage_def demoSlides_def applyTheme_def lum_def cssText_def showFatal_def Let_def)
qed

text \<open>
  Initialisation of a deck with at least one slide whose theme resolves to an entry of the
  table, on a page with the container: the navigation state exists, its slide elements are
  the children of the stage, exactly the first is visible, and after any sequence of
  navigation triggers exactly the current one is visible, with \<open>0 \<le> current < N\<close>.
\<close>

lemma init_one_visible_slide:
  assumes "stage pg = Some old" and "slides d = Some ss" and "1 \<le> length ss"
    and "resolveTheme (theme d) = ThemeObj t"
  shows "\<exists>s. snd (init pow (Parsed (JsonValue d)) pg) = Some s
           \<and> stage (fst (init pow (Parsed (JsonValue d)) pg)) = Some (slideEls s)
           \<and> length (slideEls s) = length ss
           \<and> visibleIndices s = [0]
           \<and> (\<forall>evs. visibleIndices (runEvents s evs) = [nat (current (runEvents s evs))]
                  \<and> 0 \<le> current (runEvents s evs)
                  \<and> current (runEvents s evs) < int (length ss)
                  \<and> length (slideEls (runEvents s evs)) = length ss)"
proof -
  from assms(3) have ne: "ss \<noteq> []" by auto
  let ?s = "startNav ss (counterEl pg) (progressEl pg)"
  have i: "snd (init pow (Parsed (JsonValue d)) pg) = Some ?s"
    "stage (fst (init pow (Parsed (JsonValue d)) pg)) = Some (slideEls ?s)"
    using init_success [OF assms(1,2) ne assms(4), of pow] by simp_all
  have l: "length (slideEls ?s) = length ss" by (simp add: startNav_def)
  show ?thesis
    using i l startNav_one_visible_slide [OF assms(3), of "counterEl pg" "progressEl pg"]
    by (intro exI [of _ ?s]) simp
qed

text \<open>
  C3: the deck \<open>constructorDeck\<close> has three slides, yet after its initialisation no slide
  element is visible: its theme name \<^verbatim>\<open>constructor\<close> resolves to the inherited member
  (the defect shown for C9), \<open>lum\<close> throws, and initialisation ends in the outer
  \<^verbatim>\<open>catch\<close> with the fatal panel, an empty stage and no navigation state.
\<close>

theorem init_constructor_no_visible_slide:
  "slides constructorDeck = Some demoSlides
   \<and> length demoSlides = 3
   \<and> stage demoPage = Some []
   \<and> snd (init pow (Parsed (JsonValue constructorDeck)) demoPage) = None
   \<and> stage (fst (init pow (Parsed (JsonValue constructorDeck)) demoPage)) = Some []
   \<and> visibleSlides (fst (init pow (Parsed (JsonValue constructorDeck)) demoPage)) = []
   \<and> fatalError (fst (init pow (Parsed (JsonValue constructorDeck)) demoPage))
       = Some \<lparr>message = ''Unexpected error in app.js.'', detail = ErrorStack TypeError\<rparr>"
  by (simp add: resolve_constructor accentOf_def accent2Of_def init_def constructorDeck_def
      demoPage_def demoSlides_def applyTheme_def lum_def cssText_def showFatal_def Let_def
      visibleSlides_def)

text \<open>
  Names are matched without regard to case, an absent theme is the default, and a name that
  the lookup does not find resolves to the default theme.
\<close>

lemma resolveTheme_known:
  "resolveTheme (Some ''PINK'') = ThemeObj pinkTheme"
  "resolveTheme (Some ''Purple'') = ThemeObj purpleTheme"
  "resolveTheme (Some ''bLuE'') = ThemeObj blueTheme"
  "resolveTheme (Some ''black'') = ThemeObj blackTheme"
  "resolveTheme None = ThemeObj pinkTheme"
  "resolveTheme (Some ''teal'') = ThemeObj pinkTheme"
  "resolveTheme (Some (''BLAC'' @ [CHR 0xE2, CHR 0x84, CHR 0xAA])) = ThemeObj blackTheme"
  by code_simp+

lemma resolveTheme_fallback:
  assumes "themeMap (toLowerCase s) = None"
  shows "resolveTheme (Some s) = ThemeObj pinkTheme"
proof (cases "s = []")
  case True
  have "resolveTheme (Some []) = ThemeObj pinkTheme" by code_simp
  with True show ?thesis by simp
next
  case False
  with assms show ?thesis by (simp add: resolveTheme_def truthy_def)
qed

section \<open>Rounding to double precision and the progress percentage\<close>

text \<open>
  Rounding a positive number to double precision changes it by at most the fraction
  \<open>1 / 2 ^ 53\<close> of its value.
\<close>

lemma roundTiesToEven_error: "\<bar>of_int (roundTiesToEven m) - m\<bar> \<le> 1 / 2"
proof -
  have "of_int \<lfloor>m\<rfloor> \<le> m" "m < of_int \<lfloor>m\<rfloor> + 1" by linarith+
  then show ?thesis
    by (auto simp: roundTiesToEven_def Let_def abs_le_iff)
qed

lemma powi_nat: "0 \<le> e \<Longrightarrow> (2::rat) powi e = 2 ^ nat e"
  by (simp add: power_int_def)

lemma binExponent_ge1:
  assumes "1 \<le> x"
  shows "2 powi binExponent x \<le> x \<and> x < 2 powi (binExponent x + 1)"
proof -
  let ?n = "\<lfloor>x\<rfloor>"
  have n: "0 < ?n" using assms by simp
  from bitlen_bounds [OF n] have lo: "2 ^ nat (bitlen ?n - 1) \<le> ?n" and hi: "?n < 2 ^ nat (bitlen ?n)"
    by simp_all
  have b1: "1 \<le> bitlen ?n" using n by (auto simp: bitlen_alt_def)
  have e: "binExponent x = bitlen ?n - 1" using assms by (simp add: binExponent_def)
  have "(2::rat) powi (bitlen ?n - 1) = of_int (2 ^ nat (bitlen ?n - 1))"
    using b1 by (simp add: powi_nat)
  also have "\<dots> \<le> of_int ?n" using lo by (simp only: of_int_le_iff)
  also have "\<dots> \<le> x" by simp
  finally have A: "2 powi (bitlen ?n - 1) \<le> x" .
  have "?n + 1 \<le> 2 ^ nat (bitlen ?n)" using hi by simp
  then have "(of_int (?n + 1) :: rat) \<le> of_int (2 ^ nat (bitlen ?n))" by (simp only: of_int_le_iff)
  moreover have "x < of_int (?n + 1)" by linarith
  ultimately have "x < of_int (2 ^ nat (bitlen ?n))" by linarith
  also have "\<dots> = 2 powi (bitlen ?n)" using b1 by (simp add: powi_nat)
  finally have B: "x < 2 powi (bitlen ?n - 1 + 1)" by simp
  show ?thesis using A B e by simp
qed

lemma binExponent_lt1:
  assumes "0 < x" and "x < 1"
  shows "2 powi binExponent x \<le> x \<and> x < 2 powi (binExponent x + 1)"
proof -
  let ?k = "\<lfloor>1 / x\<rfloor>"
  let ?b = "bitlen ?k"
  have inv: "1 < 1 / x" using assms by simp
  then have k: "0 < ?k" by linarith
  from bitlen_bounds [OF k] have lo: "2 ^ nat (?b - 1) \<le> ?k" and hi: "?k < 2 ^ nat ?b"
    by simp_all
  have b1: "1 \<le> ?b" using k by (auto simp: bitlen_alt_def)
  have "(of_int (2 ^ nat (?b - 1)) :: rat) \<le> of_int ?k" using lo by (simp only: of_int_le_iff)
  also have "\<dots> \<le> 1 / x" by simp
  finally have "(2::rat) ^ nat (?b - 1) \<le> 1 / x" by simp
  then have "x * 2 ^ nat (?b - 1) \<le> 1" using assms(1) by (simp add: field_simps)
  then have "x \<le> 1 / 2 ^ nat (?b - 1)" by (simp add: field_simps)
  also have "1 / (2::rat) ^ nat (?b - 1) = 2 powi (1 - ?b)"
    using b1 by (simp add: power_int_def field_simps)
  finally have up: "x \<le> 2 powi (1 - ?b)" .
  have "?k + 1 \<le> 2 ^ nat ?b" using hi by simp
  then have "(of_int (?k + 1) :: rat) \<le> of_int (2 ^ nat ?b)" by (simp only: of_int_le_iff)
  moreover have "1 / x < of_int (?k + 1)" by linarith
  ultimately have "1 / x < 2 ^ nat ?b" by simp
  then have "1 < x * 2 ^ nat ?b" using assms(1) by (simp add: field_simps)
  then have "1 / 2 ^ nat ?b < x" by (simp add: field_simps)
  moreover have "1 / (2::rat) ^ nat ?b = 2 powi (- ?b)"
    using b1 by (simp add: power_int_def field_simps)
  ultimately have low: "2 powi (- ?b) < x" by simp
  show ?thesis
  proof (cases "x = 2 powi (1 - ?b)")
    case True
    then have e: "binExponent x = 1 - ?b" using assms(2) by (simp add: binExponent_def Let_def)
    have "(2::rat) powi (1 - ?b + 1) = 2 powi (1 - ?b) * 2 powi 1"
      by (rule power_int_add) simp
    then have "(2::rat) powi (1 - ?b + 1) = 2 * x" using True by simp
    with assms(1) have "x < 2 powi (1 - ?b + 1)" by simp
    with True e show ?thesis by simp
  next
    case False
    then have e: "binExponent x = - ?b" using assms(2) by (simp add: binExponent_def Let_def)
    have "x < 2 powi (1 - ?b)" using up False by simp
    moreover have "- ?b + 1 = 1 - ?b" by simp
    ultimately show ?thesis using low e by simp
  qed
qed

lemma binExponent_bounds:
  "0 < x \<Longrightarrow> 2 powi binExponent x \<le> x \<and> x < 2 powi (binExponent x + 1)"
  using binExponent_ge1 [of x] binExponent_lt1 [of x] by (cases "1 \<le> x") auto

lemma toDouble_error:
  assumes "0 < x"
  shows "\<bar>toDouble x - x\<bar> \<le> x / 2 ^ 53"
proof -
  let ?e = "binExponent x"
  let ?u = "(2::rat) powi (?e - 52)"
  let ?r = "roundTiesToEven (x / ?u)"
  have u: "0 < ?u" by simp
  have td: "toDouble x = of_int ?r * ?u"
    using assms by (simp add: toDouble_def Let_def)
  have "toDouble x - x = (of_int ?r - x / ?u) * ?u"
    using u by (simp add: td field_simps)
  then have "\<bar>toDouble x - x\<bar> = \<bar>of_int ?r - x / ?u\<bar> * ?u"
    using u by (simp add: abs_mult)
  also have "\<dots> \<le> (1 / 2) * ?u"
    using roundTiesToEven_error [of "x / ?u"] u by (intro mult_right_mono) simp_all
  also have "(1 / 2) * ?u = 2 powi ?e / 2 ^ 53"
    by (simp add: power_int_diff)
  also have "\<dots> \<le> x / 2 ^ 53"
    using binExponent_bounds [OF assms] by (simp add: divide_right_mono)
  finally show ?thesis .
qed

lemma toDouble_pos: "0 < x \<Longrightarrow> 0 < toDouble x"
proof -
  assume x: "0 < x"
  have "x / 2 ^ 53 < x" using x by (simp add: field_simps)
  with toDouble_error [OF x] show ?thesis by linarith
qed

lemma floor_near:
  fixes t t' :: rat and A D :: int
  assumes "0 < D" and "t = of_int A / of_int D" and "\<bar>t' - t\<bar> < 1 / of_int D"
  shows "t - 1 \<le> of_int \<lfloor>t'\<rfloor> \<and> of_int \<lfloor>t'\<rfloor> \<le> t"
proof -
  let ?z = "\<lfloor>t'\<rfloor>"
  have D: "(0::rat) < of_int D" using assms(1) by simp
  have up: "of_int ?z < t + 1 / of_int D"
  proof -
    have "of_int ?z \<le> t'" by simp
    moreover have "t' < t + 1 / of_int D" using assms(3) by linarith
    ultimately show ?thesis by linarith
  qed
  have lo: "t - 1 / of_int D - 1 < of_int ?z"
  proof -
    have "t' - 1 < of_int ?z" by linarith
    moreover have "t - 1 / of_int D < t'" using assms(3) by linarith
    ultimately show ?thesis by linarith
  qed
  have "of_int ?z * of_int D < (of_int A + 1 :: rat)"
    using up D by (simp add: assms(2) field_simps)
  then have "(of_int (?z * D) :: rat) < of_int (A + 1)" by simp
  then have "?z * D < A + 1" by (simp only: of_int_less_iff)
  then have "?z * D \<le> A" by simp
  then have "(of_int (?z * D) :: rat) \<le> of_int A" by (simp only: of_int_le_iff)
  then have A: "of_int ?z \<le> t" using D by (simp add: assms(2) field_simps)
  have "(of_int A - 1 - of_int D :: rat) < of_int ?z * of_int D"
    using lo D by (simp add: assms(2) field_simps)
  then have "(of_int (A - 1 - D) :: rat) < of_int (?z * D)" by simp
  then have "A - 1 - D < ?z * D" by (simp only: of_int_less_iff)
  then have "A - D \<le> ?z * D" by simp
  then have "(of_int (A - D) :: rat) \<le> of_int (?z * D)" by (simp only: of_int_le_iff)
  then have B: "t - 1 \<le> of_int ?z" using D by (simp add: assms(2) field_simps)
  show ?thesis using A B by simp
qed

lemma two_step_error:
  fixes x d1 d2 :: rat
  assumes "0 < x" and "x \<le> 1"
    and "\<bar>d1 - x\<bar> \<le> x / 2 ^ 53" and "\<bar>d2 - d1 * 100\<bar> \<le> (d1 * 100) / 2 ^ 53"
  shows "\<bar>d2 - 100 * x\<bar> < 1 / 2 ^ 45"
proof -
  have "d1 - x \<le> \<bar>d1 - x\<bar>" by simp
  from this assms(3) have "d1 - x \<le> x / 2 ^ 53" by (rule order_trans)
  then have d1u: "d1 \<le> x + x / 2 ^ 53" by (simp add: algebra_simps)
  have "d2 - 100 * x = (d2 - d1 * 100) + 100 * (d1 - x)" by simp
  then have "\<bar>d2 - 100 * x\<bar> \<le> \<bar>d2 - d1 * 100\<bar> + \<bar>100 * (d1 - x)\<bar>"
    by (simp only: abs_triangle_ineq)
  also have "\<bar>100 * (d1 - x)\<bar> = 100 * \<bar>d1 - x\<bar>" by (simp only: abs_mult abs_numeral)
  also have "\<bar>d2 - d1 * 100\<bar> + 100 * \<bar>d1 - x\<bar> \<le> (d1 * 100) / 2 ^ 53 + 100 * (x / 2 ^ 53)"
    by (intro add_mono assms(4) mult_left_mono assms(3)) simp
  also have "\<dots> \<le> ((x + x / 2 ^ 53) * 100) / 2 ^ 53 + 100 * (x / 2 ^ 53)"
    using d1u by (simp add: divide_right_mono)
  also have "\<dots> = x * (100 * (2 / 2 ^ 53 + 1 / 2 ^ 106))"
    by (simp add: field_simps)
  also have "\<dots> \<le> 1 * (100 * (2 / 2 ^ 53 + 1 / 2 ^ 106))"
    using assms(2) by (intro mult_right_mono) simp_all
  also have "\<dots> < 1 / 2 ^ 45" by simp
  finally show ?thesis .
qed

lemma pct_product_error:
  assumes "0 \<le> c" and "c < int n"
  shows "\<bar>num_mul (num_div (of_int (c + 1)) (of_nat n)) 100 - 100 * (of_int (c + 1) / of_nat n)\<bar>
           < 1 / 2 ^ 45"
proof -
  define x :: rat where "x = of_int (c + 1) / of_nat n"
  have n: "(0::rat) < of_nat n" using assms by simp
  have x0: "0 < x" using assms n by (simp add: x_def)
  have "(of_int (c + 1) :: rat) \<le> of_nat n"
    using assms by (metis of_int_le_iff of_int_of_nat_eq zless_imp_add1_zle)
  then have x1: "x \<le> 1" using n by (simp add: x_def field_simps)
  have e1: "\<bar>toDouble x - x\<bar> \<le> x / 2 ^ 53" by (rule toDouble_error [OF x0])
  have "0 < toDouble x" by (rule toDouble_pos [OF x0])
  then have y0: "0 < toDouble x * 100" by simp
  have e2: "\<bar>toDouble (toDouble x * 100) - toDouble x * 100\<bar> \<le> (toDouble x * 100) / 2 ^ 53"
    by (rule toDouble_error [OF y0])
  have "\<bar>toDouble (toDouble x * 100) - 100 * x\<bar> < 1 / 2 ^ 45"
    by (rule two_step_error [OF x0 x1 e1 e2])
  then show ?thesis by (simp add: num_mul_def num_div_def x_def)
qed

lemma pct_nearest:
  assumes "0 \<le> c" and "c < int n" and "n < 2 ^ 32"
  shows "\<bar>of_int (pct c n) - 100 * (of_int (c + 1) / of_nat n)\<bar> \<le> (1 / 2 :: rat)"
proof -
  define q :: rat where "q = 100 * (of_int (c + 1) / of_nat n)"
  define d :: rat where "d = num_mul (num_div (of_int (c + 1)) (of_nat n)) 100"
  let ?A = "200 * (c + 1) + int n"
  let ?D = "2 * int n"
  have n: "0 < n" using assms by auto
  have D: "0 < ?D" using n by simp
  have t: "q + 1 / 2 = of_int ?A / of_int ?D"
    using n by (simp add: q_def field_simps)
  have "int n < 2 ^ 32" using assms(3) by (metis of_nat_less_iff of_nat_numeral of_nat_power)
  then have "?D < 2 ^ 33" by simp
  then have "(of_int ?D :: rat) < of_int (2 ^ 33)" by (simp only: of_int_less_iff)
  then have "(of_int ?D :: rat) < 2 ^ 45" by simp
  then have "1 / (2::rat) ^ 45 < 1 / of_int ?D"
    using D by (intro divide_strict_left_mono) simp_all
  moreover have "\<bar>d - q\<bar> < 1 / 2 ^ 45"
    unfolding d_def q_def by (rule pct_product_error [OF assms(1,2)])
  ultimately have "\<bar>(d + 1 / 2) - (q + 1 / 2)\<bar> < 1 / of_int ?D" by linarith
  from floor_near [OF D t this]
  have "q + 1 / 2 - 1 \<le> of_int \<lfloor>d + 1 / 2\<rfloor>" and "of_int \<lfloor>d + 1 / 2\<rfloor> \<le> q + 1 / 2"
    by simp_all
  moreover have "pct c n = \<lfloor>d + 1 / 2\<rfloor>" by (simp add: pct_def Math_round_def d_def)
  ultimately have "\<bar>of_int (pct c n) - q\<bar> \<le> 1 / 2" by linarith
  then show ?thesis by (simp only: q_def)
qed

lemma floor_near_int:
  fixes t t' :: rat and A D :: int
  assumes "0 < D" and "t = of_int A / of_int D" and "\<bar>t' - t\<bar> < 1 / of_int D"
  shows "\<lfloor>t'\<rfloor> * D \<le> A \<and> A - D \<le> \<lfloor>t'\<rfloor> * D"
proof -
  from floor_near [OF assms] have a: "t - 1 \<le> of_int \<lfloor>t'\<rfloor>" and b: "of_int \<lfloor>t'\<rfloor> \<le> t"
    by simp_all
  have D: "(0::rat) < of_int D" using assms(1) by simp
  from b have "of_int \<lfloor>t'\<rfloor> * of_int D \<le> (of_int A :: rat)"
    using D by (simp add: assms(2) field_simps)
  then have "(of_int (\<lfloor>t'\<rfloor> * D) :: rat) \<le> of_int A" by simp
  then have 1: "\<lfloor>t'\<rfloor> * D \<le> A" by (simp only: of_int_le_iff)
  from a have "(of_int A - of_int D :: rat) \<le> of_int \<lfloor>t'\<rfloor> * of_int D"
    using D by (simp add: assms(2) field_simps)
  then have "(of_int (A - D) :: rat) \<le> of_int (\<lfloor>t'\<rfloor> * D)" by simp
  then have 2: "A - D \<le> \<lfloor>t'\<rfloor> * D" by (simp only: of_int_le_iff)
  show ?thesis using 1 2 by simp
qed

lemma pct_int_bounds:
  assumes "0 \<le> c" and "c < int n" and "n < 2 ^ 32"
  shows "pct c n * (2 * int n) \<le> 200 * (c + 1) + int n
       \<and> 200 * (c + 1) + int n - 2 * int n \<le> pct c n * (2 * int n)"
proof -
  define q :: rat where "q = 100 * (of_int (c + 1) / of_nat n)"
  define d :: rat where "d = num_mul (num_div (of_int (c + 1)) (of_nat n)) 100"
  let ?A = "200 * (c + 1) + int n"
  let ?D = "2 * int n"
  have n: "0 < n" using assms by auto
  have D: "0 < ?D" using n by simp
  have t: "q + 1 / 2 = of_int ?A / of_int ?D"
    using n by (simp add: q_def field_simps)
  have "int n < 2 ^ 32" using assms(3) by (metis of_nat_less_iff of_nat_numeral of_nat_power)
  then have "?D < 2 ^ 33" by simp
  then have "(of_int ?D :: rat) < of_int (2 ^ 33)" by (simp only: of_int_less_iff)
  then have "(of_int ?D :: rat) < 2 ^ 45" by simp
  then have "1 / (2::rat) ^ 45 < 1 / of_int ?D"
    using D by (intro divide_strict_left_mono) simp_all
  moreover have "\<bar>d - q\<bar> < 1 / 2 ^ 45"
    unfolding d_def q_def by (rule pct_product_error [OF assms(1,2)])
  ultimately have "\<bar>(d + 1 / 2) - (q + 1 / 2)\<bar> < 1 / of_int ?D" by linarith
  from floor_near_int [OF D t this]
  have "\<lfloor>d + 1 / 2\<rfloor> * ?D \<le> ?A \<and> ?A - ?D \<le> \<lfloor>d + 1 / 2\<rfloor> * ?D" .
  moreover have "pct c n = \<lfloor>d + 1 / 2\<rfloor>" by (simp add: pct_def Math_round_def d_def)
  ultimately show ?thesis by simp
qed

lemma Math_round_quotient:
  assumes "0 < n"
  shows "Math_round (100 * (of_int (c + 1) / of_nat n)) = (200 * (c + 1) + int n) div (2 * int n)"
proof -
  have "100 * (of_int (c + 1) / of_nat n) + 1 / 2
          = (of_int (200 * (c + 1) + int n) / of_int (2 * int n) :: rat)"
    using assms by (simp add: field_simps)
  then show ?thesis
    by (simp only: Math_round_def floor_divide_of_int_eq)
qed

lemma pct_exact:
  assumes "0 \<le> c" and "c < int n" and "n < 2 ^ 32"
    and "\<not> 2 * int n dvd 200 * (c + 1) + int n"
  shows "pct c n = Math_round (100 * (of_int (c + 1) / of_nat n))"
proof -
  let ?A = "200 * (c + 1) + int n"
  let ?D = "2 * int n"
  have n: "0 < n" using assms by auto
  from pct_int_bounds [OF assms(1-3)]
  have a: "pct c n * ?D \<le> ?A" and b: "?A - ?D \<le> pct c n * ?D" by simp_all
  have "?A - ?D \<noteq> pct c n * ?D"
  proof
    assume "?A - ?D = pct c n * ?D"
    then have "?A = (pct c n + 1) * ?D" by (simp add: algebra_simps)
    then have "?D dvd ?A" by (metis dvd_triv_right)
    with assms(4) show False by simp
  qed
  with b have lt: "?A < pct c n * ?D + ?D" by linarith
  have "?A div ?D = pct c n"
  proof (rule int_div_pos_eq)
    show "?A = ?D * pct c n + (?A - pct c n * ?D)" by (simp add: algebra_simps)
    show "0 \<le> ?A - pct c n * ?D" using a by simp
    show "?A - pct c n * ?D < ?D" using lt by simp
  qed
  then show ?thesis by (simp only: Math_round_quotient [OF n])
qed

lemma pct_le_100:
  assumes "0 \<le> c" and "c < int n" and "n < 2 ^ 32"
  shows "pct c n \<le> 100"
proof (rule ccontr)
  assume "\<not> pct c n \<le> 100"
  then have "101 \<le> pct c n" by simp
  moreover have n: "0 < int n" using assms by auto
  ultimately have "101 * (2 * int n) \<le> pct c n * (2 * int n)"
    by (intro mult_right_mono) simp_all
  also have "\<dots> \<le> 200 * (c + 1) + int n"
    using pct_int_bounds [OF assms] by simp
  also have "\<dots> \<le> 200 * int n + int n" using assms(2) by simp
  finally show False using n by simp
qed

lemma tie_sizes:
  "list_all (\<lambda>n. 2 * int n dvd 200 + int n \<longrightarrow> n = 8 \<or> n = 40 \<or> n = 200) [0..<201]"
  by code_simp

lemma pct_first_ties: "pct 0 8 = 13" "pct 0 40 = 3" "pct 0 200 = 1"
  by code_simp+

lemma Math_round_first_ties:
  "Math_round (100 / of_nat 8) = 13" "Math_round (100 / of_nat 40) = 3"
  "Math_round (100 / of_nat 200) = 1"
  by code_simp+

lemma pct_ge_first:
  assumes "0 \<le> c" and "c < int n" and "n < 2 ^ 32"
  shows "Math_round (100 / of_nat n) \<le> pct c n"
proof -
  let ?R = "Math_round (100 / of_nat n)"
  have n: "0 < n" using assms by auto
  have R: "?R = (200 + int n) div (2 * int n)"
    using Math_round_quotient [OF n, of 0] by simp
  show ?thesis
  proof (cases "c = 0")
    case False
    with assms(1) have c1: "1 \<le> c" by simp
    show ?thesis
    proof (rule ccontr)
      assume "\<not> ?R \<le> pct c n"
      then have "pct c n + 1 \<le> ?R" by simp
      then have "(pct c n + 1) * (2 * int n) \<le> ?R * (2 * int n)"
        by (intro mult_right_mono) simp_all
      also have "\<dots> \<le> 200 + int n"
      proof -
        have "2 * int n * ((200 + int n) div (2 * int n)) + (200 + int n) mod (2 * int n)
                = 200 + int n" by (rule mult_div_mod_eq)
        moreover have "0 \<le> (200 + int n) mod (2 * int n)" using n by simp
        ultimately have "2 * int n * ((200 + int n) div (2 * int n)) \<le> 200 + int n"
          by linarith
        then show ?thesis by (simp only: R mult.commute)
      qed
      finally have "pct c n * (2 * int n) \<le> 200 - int n" by (simp add: algebra_simps)
      moreover have "200 * (c + 1) + int n - 2 * int n \<le> pct c n * (2 * int n)"
        using pct_int_bounds [OF assms] by simp
      moreover have "400 \<le> 200 * (c + 1)" using c1 by simp
      ultimately show False by linarith
    qed
  next
    case True
    show ?thesis
    proof (cases "2 * int n dvd 200 + int n")
      case False
      then have "\<not> 2 * int n dvd 200 * (c + 1) + int n" using True by simp
      from pct_exact [OF assms this] True show ?thesis by simp
    next
      case dv: True
      then have "2 * int n \<le> 200 + int n" by (intro zdvd_imp_le) simp_all
      then have "n \<in> set [0..<201]" by simp
      with tie_sizes dv have "n = 8 \<or> n = 40 \<or> n = 200"
        by (simp only: list_all_iff)
      then show ?thesis
        using True pct_first_ties Math_round_first_ties by auto
    qed
  qed
qed

section \<open>Counter and progress indicator\<close>

lemma dvd_quotient_Ints:
  fixes A D :: int
  assumes "D \<noteq> 0" and "D dvd A"
  shows "(of_int A / of_int D :: rat) \<in> \<int>"
proof -
  from assms(2) obtain k where "A = D * k" ..
  then have "(of_int A / of_int D :: rat) = of_int k" using assms(1) by simp
  then show ?thesis by simp
qed

lemma counter_goto:
  "slideEls s \<noteq> [] \<Longrightarrow>
   counter (goto n s) = map_option (\<lambda>_. counterText (current (goto n s)) (length (slideEls s))) (counter s)"
  by (auto simp: goto_def updateUI_def Let_def)

lemma progressFill_goto:
  "slideEls s \<noteq> [] \<Longrightarrow>
   progressFill (goto n s)
     = map_option (\<lambda>_. showInt (pct (current (goto n s)) (length (slideEls s))) @ ''%'') (progressFill s)"
  by (auto simp: goto_def updateUI_def Let_def pctText_def)

text \<open>
  C4 (as the code has it): after \<open>goto\<close> on a deck of \<open>N\<close> slides (\<open>1 \<le> N < 2 ^ 32\<close>, the
  bound of an array length), the counter, when it exists, reads \<open>current + 1\<close>, \<open>" / "\<close>,
  \<open>N\<close>; the progress width, when the element exists, is the percentage \<open>pct current N\<close>
  that \<^verbatim>\<open>Math.round\<close> gives for the double-precision product. That percentage is an
  integer within one half of \<open>100 * (current + 1) / N\<close>; it is that quotient rounded
  (halves up) whenever the quotient is not exactly halfway between two integers; and it lies
  between the rounded \<open>100 / N\<close> and 100.
\<close>

theorem progress_and_counter:
  assumes "1 \<le> length (slideEls s)" and "length (slideEls s) < 2 ^ 32"
  shows "counter (goto n s)
           = map_option (\<lambda>_. showInt (current (goto n s) + 1) @ '' / '' @ showNat (length (slideEls s)))
               (counter s)
       \<and> progressFill (goto n s)
           = map_option (\<lambda>_. showInt (pct (current (goto n s)) (length (slideEls s))) @ ''%'')
               (progressFill s)
       \<and> \<bar>of_int (pct (current (goto n s)) (length (slideEls s)))
            - 100 * (of_int (current (goto n s) + 1) / of_nat (length (slideEls s)))\<bar> \<le> (1 / 2 :: rat)
       \<and> (100 * (of_int (current (goto n s) + 1) / of_nat (length (slideEls s))) + 1 / 2 \<notin> (\<int> :: rat set)
            \<longrightarrow> pct (current (goto n s)) (length (slideEls s))
                  = Math_round (100 * (of_int (current (goto n s) + 1) / of_nat (length (slideEls s)))))
       \<and> Math_round (100 / of_nat (length (slideEls s))) \<le> pct (current (goto n s)) (length (slideEls s))
       \<and> pct (current (goto n s)) (length (slideEls s)) \<le> 100"
proof -
  let ?N = "length (slideEls s)"
  let ?c = "current (goto n s)"
  from assms(1) have ne: "slideEls s \<noteq> []" by auto
  have pos: "0 < ?N" using ne by simp
  have c: "?c = max 0 (min n (int ?N - 1))" by (rule current_goto [OF ne])
  have c0: "0 \<le> ?c" and cN: "?c < int ?N" using pos by (auto simp: c)
  have ex: "pct ?c ?N = Math_round (100 * (of_int (?c + 1) / of_nat ?N))"
    if "100 * (of_int (?c + 1) / of_nat ?N) + 1 / 2 \<notin> (\<int> :: rat set)"
  proof (rule pct_exact [OF c0 cN assms(2)])
    show "\<not> 2 * int ?N dvd 200 * (?c + 1) + int ?N"
    proof
      assume "2 * int ?N dvd 200 * (?c + 1) + int ?N"
      moreover have "2 * int ?N \<noteq> 0" using pos by simp
      ultimately have "(of_int (200 * (?c + 1) + int ?N) / of_int (2 * int ?N) :: rat) \<in> \<int>"
        by (intro dvd_quotient_Ints)
      moreover have "100 * (of_int (?c + 1) / of_nat ?N) + 1 / 2
                       = (of_int (200 * (?c + 1) + int ?N) / of_int (2 * int ?N) :: rat)"
        using pos by (simp add: field_simps)
      ultimately show False using that by simp
    qed
  qed
  show ?thesis
    using counter_goto [OF ne, of n] progressFill_goto [OF ne, of n]
      pct_nearest [OF c0 cN assms(2)] ex pct_ge_first [OF c0 cN assms(2)]
      pct_le_100 [OF c0 cN assms(2)]
    by (simp add: counterText_def)
qed

theorem progress_and_counter_witness:
  "1 \<le> length (slideEls demoNav) \<and> length (slideEls demoNav) < 2 ^ 32
   \<and> counter (goto 1 demoNav) = Some ''2 / 3''
   \<and> progressFill (goto 1 demoNav) = Some ''67%''
   \<and> pct 1 3 = Math_round (100 * (of_int (1 + 1) / of_nat 3))"
proof -
  have a: "1 \<le> length (slideEls demoNav)" by (simp add: demoNav_length)
  have b: "length (slideEls demoNav) < 2 ^ 32" by (simp add: demoNav_length)
  have c: "current (goto 1 demoNav) = 1" by code_simp
  have k: "counter demoNav = Some ''1 / 3''" by code_simp
  have p: "progressFill demoNav = Some ''33%''" by code_simp
  have t: "showInt 2 = ''2''" "showNat 3 = ''3''" by code_simp+
  have q: "showInt (pct 1 3) @ ''%'' = ''67%''" by code_simp
  have i: "(100 * (2 / 3) + 1 / 2 :: rat) \<notin> \<int>"
  proof
    assume "(100 * (2 / 3) + 1 / 2 :: rat) \<in> \<int>"
    then obtain z :: int where "(100 * (2 / 3) + 1 / 2 :: rat) = of_int z" by (auto elim: Ints_cases)
    then have "(403 :: rat) = of_int (6 * z)" by simp
    then have "(403 :: int) = 6 * z" by (metis of_int_eq_iff of_int_numeral)
    then show False by presburger
  qed
  show ?thesis
    using a b progress_and_counter [OF a b, of 1] i
    by (simp add: demoNav_length c k p t q)
qed

text \<open>
  C4 as stated fails: on slide 23 of 40 the exact percentage is 57.5, the double-precision
  product is just below it and the width is 57 percent, not the rounded 58; on slide 1 of 8
  the exact percentage is 12.5 and the width is 13 percent. No one rule for halves gives
  both.
\<close>

theorem progress_rounding_counterexample:
  "progressFill (goto 22 fortyNav) = Some ''57%''
   \<and> 100 * (of_int (22 + 1) / of_nat 40) = (57 + 1 / 2 :: rat)
   \<and> Math_round (100 * (of_int (22 + 1) / of_nat 40)) = 58
   \<and> progressFill (goto 0 (startNav (replicate 8 (hd fortySlides)) None (Some []))) = Some ''13%''
   \<and> 100 * (of_int (0 + 1) / of_nat 8) = (12 + 1 / 2 :: rat)"
proof -
  have a: "progressFill (goto 22 fortyNav) = Some ''57%''" by code_simp
  have b: "Math_round (100 * (of_int (22 + 1) / of_nat 40)) = 58" by code_simp
  have c: "progressFill (goto 0 (startNav (replicate 8 (hd fortySlides)) None (Some []))) = Some ''13%''"
    by code_simp
  show ?thesis using a b c by simp
qed

section \<open>Luminance and contrast classes\<close>

lemma threshold_value: "threshold = 5660844587619619 / 144115188075855872"
  by code_simp

lemma threshold_pos: "0 < threshold"
  unfolding threshold_value by simp

lemma channel_value_low:
  assumes "k \<le> 10"
  shows "num_div (of_nat k) 255 < threshold"
proof (cases "k = 0")
  case True
  then show ?thesis using threshold_pos by (simp add: num_div_def toDouble_def)
next
  case False
  define x :: rat where "x = of_nat k / 255"
  have x0: "0 < x" using False by (simp add: x_def)
  have x1: "x \<le> 10 / 255" using assms by (simp add: x_def)
  have "toDouble x - x \<le> \<bar>toDouble x - x\<bar>" by simp
  from this toDouble_error [OF x0] have "toDouble x - x \<le> x / 2 ^ 53" by (rule order_trans)
  then have "toDouble x \<le> x * (1 + 1 / 2 ^ 53)" by (simp add: algebra_simps)
  also have "\<dots> \<le> (10 / 255) * (1 + 1 / 2 ^ 53)"
    using x1 by (intro mult_right_mono) simp_all
  also have "\<dots> < 5660844587619619 / 144115188075855872" by simp
  finally show ?thesis by (simp only: num_div_def x_def threshold_value)
qed

lemma channel_value_high:
  assumes "11 \<le> k"
  shows "threshold < num_div (of_nat k) 255"
proof -
  define x :: rat where "x = of_nat k / 255"
  have x0: "0 < x" using assms by (simp add: x_def)
  have x1: "11 / 255 \<le> x" using assms by (simp add: x_def)
  have "x - toDouble x \<le> \<bar>toDouble x - x\<bar>" by simp
  from this toDouble_error [OF x0] have "x - toDouble x \<le> x / 2 ^ 53" by (rule order_trans)
  then have low: "x * (1 - 1 / 2 ^ 53) \<le> toDouble x" by (simp add: algebra_simps)
  have "(5660844587619619 / 144115188075855872 :: rat) < (11 / 255) * (1 - 1 / 2 ^ 53)" by simp
  also have "\<dots> \<le> x * (1 - 1 / 2 ^ 53)"
    using x1 by (intro mult_right_mono) simp_all
  also note low
  finally show ?thesis by (simp only: num_div_def x_def threshold_value)
qed

lemma channel_branches:
  "(num_div (of_nat k) 255 < threshold \<longrightarrow>
      channel pow k = num_div (num_div (of_nat k) 255) linearDivisor)
   \<and> (threshold \<le> num_div (of_nat k) 255 \<longrightarrow>
      channel pow k = pow (num_div (num_add (num_div (of_nat k) 255) gammaOffset)
                                   gammaScale)
                          gammaExponent)"
proof (cases "k \<le> 10")
  case True
  from channel_value_low [OF True] show ?thesis
    by (simp add: channel_def linearize_def)
next
  case False
  then have "11 \<le> k" by simp
  from channel_value_high [OF this] show ?thesis
    by (simp add: channel_def linearize_def)
qed

lemma white_channel_argument:
  "num_div 255 255 = 1"
  "num_div (num_add 1 gammaOffset) gammaScale = 1"
  "weighted 1 1 1 = 1"
  by code_simp+

lemma black_channel:
  "num_div 0 255 = 0" "num_div 0 linearDivisor = 0" "weighted 0 0 0 = 0"
  by code_simp+

lemma hex_white_black:
  "hexToRgb ''#ffffff'' = Some (255, 255, 255)" "hexToRgb ''#000000'' = Some (0, 0, 0)"
  by code_simp+

lemma channel_white:
  assumes "pow 1 gammaExponent = 1"
  shows "channel pow 255 = 1"
proof -
  have "threshold < num_div (of_nat 255) 255"
    by (rule channel_value_high) simp
  then have "\<not> (1 \<le> threshold)" by (simp add: white_channel_argument)
  then show ?thesis
    using assms by (simp add: channel_def linearize_def white_channel_argument)
qed

lemma channel_black: "channel pow 0 = 0"
proof -
  have "num_div (of_nat 0) 255 < threshold"
    by (rule channel_value_low) simp
  have "(0::rat) \<le> threshold" using threshold_pos by simp
  then show ?thesis
    by (simp add: channel_def linearize_def black_channel)
qed

lemma table_accents_parse:
  "hexToRgb (accent pinkTheme) \<noteq> None" "hexToRgb (accent purpleTheme) \<noteq> None"
  "hexToRgb (accent blueTheme) \<noteq> None" "hexToRgb (accent blackTheme) \<noteq> None"
  by code_simp+

lemma luminance_named:
  assumes "pow 1 gammaExponent = 1"
  shows "(num_div (of_nat k) 255 < threshold \<longrightarrow>
            channel pow k = num_div (num_div (of_nat k) 255) linearDivisor)
       \<and> (threshold \<le> num_div (of_nat k) 255 \<longrightarrow>
            channel pow k = pow (num_div (num_add (num_div (of_nat k) 255) gammaOffset)
                                         gammaScale)
                                gammaExponent)
       \<and> (hexToRgb h = Some (r, g, b) \<longrightarrow>
            lum pow (Some h) = Inr (Some (weighted (channel pow r) (channel pow g) (channel pow b))))
       \<and> lum pow (Some ''#ffffff'') = Inr (Some 1)
       \<and> (accent t = ''#ffffff'' \<longrightarrow>
            lightText (fst (applyTheme pow (ThemeObj t) pg)) \<and> \<not> darkText (fst (applyTheme pow (ThemeObj t) pg)))
       \<and> lum pow (Some ''#000000'') = Inr (Some 0)
       \<and> (accent t = ''#000000'' \<longrightarrow>
            darkText (fst (applyTheme pow (ThemeObj t) pg)) \<and> \<not> lightText (fst (applyTheme pow (ThemeObj t) pg)))
       \<and> (hexToRgb (accent t) \<noteq> None \<longrightarrow>
            lightText (fst (applyTheme pow (ThemeObj t) pg)) \<noteq> darkText (fst (applyTheme pow (ThemeObj t) pg)))
       \<and> (t \<in> set [pinkTheme, purpleTheme, blueTheme, blackTheme] \<longrightarrow>
            lightText (fst (applyTheme pow (ThemeObj t) pg)) \<noteq> darkText (fst (applyTheme pow (ThemeObj t) pg)))"
proof -
  have w: "lum pow (Some ''#ffffff'') = Inr (Some 1)"
    by (simp add: lum_def hex_white_black channel_white [of pow, OF assms] white_channel_argument)
  have b: "lum pow (Some ''#000000'') = Inr (Some 0)"
    by (simp add: lum_def hex_white_black channel_black black_channel)
  have l: "hexToRgb h = Some (r, g, b) \<longrightarrow>
            lum pow (Some h) = Inr (Some (weighted (channel pow r) (channel pow g) (channel pow b)))"
    by (simp add: lum_def)
  have tw: "accent t = ''#ffffff'' \<longrightarrow>
            lightText (fst (applyTheme pow (ThemeObj t) pg)) \<and> \<not> darkText (fst (applyTheme pow (ThemeObj t) pg))"
    using w by (simp add: applyTheme_def accentOf_def Let_def lightTextClass_def darkTextClass_def)
  have tb: "accent t = ''#000000'' \<longrightarrow>
            darkText (fst (applyTheme pow (ThemeObj t) pg)) \<and> \<not> lightText (fst (applyTheme pow (ThemeObj t) pg))"
    using b by (simp add: applyTheme_def accentOf_def Let_def lightTextClass_def darkTextClass_def)
  have one: "hexToRgb (accent t) \<noteq> None \<longrightarrow>
            lightText (fst (applyTheme pow (ThemeObj t) pg)) \<noteq> darkText (fst (applyTheme pow (ThemeObj t) pg))"
    by (auto simp: applyTheme_def accentOf_def Let_def lum_def lightTextClass_def darkTextClass_def
        split: option.splits)
  have tab: "t \<in> set [pinkTheme, purpleTheme, blueTheme, blackTheme] \<longrightarrow>
            lightText (fst (applyTheme pow (ThemeObj t) pg)) \<noteq> darkText (fst (applyTheme pow (ThemeObj t) pg))"
    using one table_accents_parse by auto
  show ?thesis
    using channel_branches [of k pow] l w tw b tb one tab by blast
qed

lemma hex_primaries:
  "hexToRgb ''#ff0000'' = Some (255, 0, 0)" "hexToRgb ''#00ff00'' = Some (0, 255, 0)"
  "hexToRgb ''#0000ff'' = Some (0, 0, 255)"
  by code_simp+

lemma weighted_primaries:
  "weighted 1 0 0 = weightR" "weighted 0 1 0 = weightG" "weighted 0 0 1 = weightB"
  by code_simp+

lemma lum_primaries:
  assumes "pow 1 gammaExponent = 1"
  shows "lum pow (Some ''#ff0000'') = Inr (Some weightR)
       \<and> lum pow (Some ''#00ff00'') = Inr (Some weightG)
       \<and> lum pow (Some ''#0000ff'') = Inr (Some weightB)"
  by (simp add: lum_def hex_primaries channel_white [of pow, OF assms] channel_black
      weighted_primaries)

text \<open>
  C8: for every channel byte \<open>k\<close>, with \<open>v\<close> the double \<open>k / 255\<close>: below the threshold
  0.03928 the linear value is \<open>v / 12.92\<close>, at or above it the power of
  \<open>(v + 0.055) / 1.055\<close> with exponent 2.4 (no channel value equals the threshold, where the
  code would still divide); the luminance is \<open>0.2126 R + 0.7152 G + 0.0722 B\<close> in double
  arithmetic, summed from the left, so pure red, green and blue have the three weights as
  their luminance. For the accent \<^verbatim>\<open>#ffffff\<close> the luminance is 1 and the light-text class
  is set and the dark-text class is not; for \<^verbatim>\<open>#000000\<close> it is 0 and the dark-text class
  is set and the light-text class is not; for every accent of six hexadecimal digits, so
  for each theme of the table, exactly one of the two classes is set.
  Of \<^verbatim>\<open>Math.pow\<close> the proof uses only that 1 to the power 2.4 is 1.
\<close>

theorem luminance_and_contrast:
  assumes "pow 1 (toDouble (24 / 10)) = 1"
  shows "(num_div (of_nat k) 255 < toDouble (3928 / 100000) \<longrightarrow>
            channel pow k = num_div (num_div (of_nat k) 255) (toDouble (1292 / 100)))
       \<and> (toDouble (3928 / 100000) \<le> num_div (of_nat k) 255 \<longrightarrow>
            channel pow k = pow (num_div (num_add (num_div (of_nat k) 255) (toDouble (55 / 1000)))
                                         (toDouble (1055 / 1000)))
                                (toDouble (24 / 10)))
       \<and> (hexToRgb h = Some (r, g, b) \<longrightarrow>
            lum pow (Some h)
              = Inr (Some (num_add (num_add (num_mul (toDouble (2126 / 10000)) (channel pow r))
                                            (num_mul (toDouble (7152 / 10000)) (channel pow g)))
                                   (num_mul (toDouble (722 / 10000)) (channel pow b)))))
       \<and> lum pow (Some ''#ffffff'') = Inr (Some 1)
       \<and> (accent t = ''#ffffff'' \<longrightarrow>
            lightText (fst (applyTheme pow (ThemeObj t) pg)) \<and> \<not> darkText (fst (applyTheme pow (ThemeObj t) pg)))
       \<and> lum pow (Some ''#000000'') = Inr (Some 0)
       \<and> (accent t = ''#000000'' \<longrightarrow>
            darkText (fst (applyTheme pow (ThemeObj t) pg)) \<and> \<not> lightText (fst (applyTheme pow (ThemeObj t) pg)))
       \<and> (hexToRgb (accent t) \<noteq> None \<longrightarrow>
            lightText (fst (applyTheme pow (ThemeObj t) pg)) \<noteq> darkText (fst (applyTheme pow (ThemeObj t) pg)))
       \<and> (t \<in> set [pinkTheme, purpleTheme, blueTheme, blackTheme] \<longrightarrow>
            lightText (fst (applyTheme pow (ThemeObj t) pg)) \<noteq> darkText (fst (applyTheme pow (ThemeObj t) pg)))
       \<and> lum pow (Some ''#ff0000'') = Inr (Some (toDouble (2126 / 10000)))
       \<and> lum pow (Some ''#00ff00'') = Inr (Some (toDouble (7152 / 10000)))
       \<and> lum pow (Some ''#0000ff'') = Inr (Some (toDouble (722 / 10000)))"
proof -
  have a: "pow 1 gammaExponent = 1" unfolding gammaExponent_def by (rule assms)
  have n: "((num_div (of_nat k) 255 < threshold \<longrightarrow>
            channel pow k = num_div (num_div (of_nat k) 255) linearDivisor)
       \<and> (threshold \<le> num_div (of_nat k) 255 \<longrightarrow>
            channel pow k = pow (num_div (num_add (num_div (of_nat k) 255) gammaOffset)
                                         gammaScale)
                                gammaExponent)
       \<and> (hexToRgb h = Some (r, g, b) \<longrightarrow>
            lum pow (Some h) = Inr (Some (weighted (channel pow r) (channel pow g) (channel pow b))))
       \<and> lum pow (Some ''#ffffff'') = Inr (Some 1)
       \<and> (accent t = ''#ffffff'' \<longrightarrow>
            lightText (fst (applyTheme pow (ThemeObj t) pg)) \<and> \<not> darkText (fst (applyTheme pow (ThemeObj t) pg)))
       \<and> lum pow (Some ''#000000'') = Inr (Some 0)
       \<and> (accent t = ''#000000'' \<longrightarrow>
            darkText (fst (applyTheme pow (ThemeObj t) pg)) \<and> \<not> lightText (fst (applyTheme pow (ThemeObj t) pg)))
       \<and> (hexToRgb (accent t) \<noteq> None \<longrightarrow>
            lightText (fst (applyTheme pow (ThemeObj t) pg)) \<noteq> darkText (fst (applyTheme pow (ThemeObj t) pg)))
       \<and> (t \<in> set [pinkTheme, purpleTheme, blueTheme, blackTheme] \<longrightarrow>
            lightText (fst (applyTheme pow (ThemeObj t) pg)) \<noteq> darkText (fst (applyTheme pow (ThemeObj t) pg))))
       \<and> (lum pow (Some ''#ff0000'') = Inr (Some weightR)
       \<and> lum pow (Some ''#00ff00'') = Inr (Some weightG)
       \<and> lum pow (Some ''#0000ff'') = Inr (Some weightB))"
    using luminance_named [of pow k h r g b t pg, OF a] lum_primaries [of pow, OF a]
    by (rule conjI)
  show ?thesis
    using n
    unfolding threshold_def linearDivisor_def gammaOffset_def gammaScale_def gammaExponent_def
      weighted_def weightR_def weightG_def weightB_def conj_assoc
    .
qed

theorem luminance_and_contrast_witness:
  "powStub 1 (toDouble (24 / 10)) = 1
   \<and> lum powStub (Some ''#ffffff'') = Inr (Some 1)
   \<and> lum powStub (Some ''#000000'') = Inr (Some 0)
   \<and> lum powStub (Some ''#ff0000'') = Inr (Some (toDouble (2126 / 10000)))
   \<and> lightText (fst (applyTheme powStub (ThemeObj whiteTheme) demoPage))
   \<and> \<not> darkText (fst (applyTheme powStub (ThemeObj whiteTheme) demoPage))
   \<and> channel powStub 5 = num_div (num_div (of_nat 5) 255) (toDouble (1292 / 100))
   \<and> lum powStub (Some ''#ff6ba6'')
       = Inr (Some (num_add (num_add (num_mul (toDouble (2126 / 10000)) (channel powStub 255))
                                     (num_mul (toDouble (7152 / 10000)) (channel powStub 107)))
                            (num_mul (toDouble (722 / 10000)) (channel powStub 166))))"
proof -
  have a: "powStub 1 (toDouble (24 / 10)) = 1" by (simp add: powStub_def)
  have h: "accent whiteTheme = ''#ffffff''" by (simp add: whiteTheme_def)
  have lo: "num_div (of_nat 5) 255 < toDouble (3928 / 100000)"
    using channel_value_low [of 5] by (simp add: threshold_def)
  have p: "hexToRgb ''#ff6ba6'' = Some (255, 107, 166)" by code_simp
  show ?thesis
    using a h lo p
      luminance_and_contrast [of powStub 5 "''#ff6ba6''" 255 107 166 whiteTheme demoPage, OF a]
    by simp
qed

end
